theory Spec2Isabelle
  imports Main "HOL-Library.Char_ord" "HOL-Library.List_Lexorder"
    "HOL-Library.Product_Lexorder" "HOL-Library.Word"
begin

section \<open>Faults and exceptions\<close>

text \<open>
  The ways in which the modelled functions leave without returning normally.
  \<open>ceph_assert\<close>, \<open>ceph_assert_always\<close>, \<open>ceph_abort\<close> and \<open>ceph_abort_msg\<close> terminate the
  process; \<open>bad_any_cast\<close> and \<open>bad_cmd_get\<close> are C++ exceptions (the latter is caught by
  \<open>CephContextHook::call\<close>).
\<close>

datatype failure = CephAssertFail | CephAbort | CephAbortMsg string | BadAnyCast | BadCmdGet

fun is_fatal :: "failure \<Rightarrow> bool" where
  "is_fatal CephAssertFail = True"
| "is_fatal CephAbort = True"
| "is_fatal (CephAbortMsg m) = True"
| "is_fatal BadAnyCast = False"
| "is_fatal BadCmdGet = False"

section \<open>ObserverMgr (config\_obs\_mgr.h, config\_obs\_mgr.cc)\<close>

text \<open>
  \<open>obs_map_t\<close> is \<open>std::multimap<std::string, ConfigObs*>\<close>: a sequence of entries kept in
  non-decreasing key order, entries of equal key in insertion order. An observer pointer is
  its address. \<open>std::string\<close> compares bytewise lexicographically, which is the order of
  \<open>string\<close> here.
\<close>

type_synonym obs_ptr = nat
type_synonym obs_map_t = "(string \<times> obs_ptr) list"

text \<open>\<open>multimap::emplace\<close>: the new entry goes to the upper bound of its key.\<close>

fun mm_emplace :: "'k::linorder \<Rightarrow> 'v \<Rightarrow> ('k \<times> 'v) list \<Rightarrow> ('k \<times> 'v) list" where
  "mm_emplace k v [] = [(k, v)]"
| "mm_emplace k v (e # es) =
     (if k < fst e then (k, v) # e # es else e # mm_emplace k v es)"

text \<open>\<open>multimap::equal_range\<close>: the entries from the lower bound to the upper bound of the key.\<close>

definition mm_equal_range :: "('k::linorder \<times> 'v) list \<Rightarrow> 'k \<Rightarrow> ('k \<times> 'v) list" where
  "mm_equal_range m k = takeWhile (\<lambda>e. \<not> k < fst e) (dropWhile (\<lambda>e. fst e < k) m)"

text \<open>
  \<open>add_observer\<close>: one \<open>emplace\<close> per element of the observer's null-terminated key array.
  The virtual \<open>get_tracked_conf_keys\<close> is a parameter.
\<close>

fun add_observer_loop :: "string list \<Rightarrow> obs_ptr \<Rightarrow> obs_map_t \<Rightarrow> obs_map_t" where
  "add_observer_loop [] observer observers = observers"
| "add_observer_loop (k # ks) observer observers =
     add_observer_loop ks observer (mm_emplace k observer observers)"

definition add_observer :: "(obs_ptr \<Rightarrow> string list) \<Rightarrow> obs_ptr \<Rightarrow> obs_map_t \<Rightarrow> obs_map_t" where
  "add_observer get_tracked_conf_keys observer observers =
     add_observer_loop (get_tracked_conf_keys observer) observer observers"

text \<open>
  \<open>remove_observer\<close>: the loop erases every entry whose observer is the given one and records
  in \<open>found_obs\<close> whether there was any; \<open>ceph_assert(found_obs)\<close> follows the loop.
\<close>

fun remove_observer_loop :: "obs_ptr \<Rightarrow> obs_map_t \<Rightarrow> bool \<Rightarrow> obs_map_t \<times> bool" where
  "remove_observer_loop observer [] found_obs = ([], found_obs)"
| "remove_observer_loop observer (e # rest) found_obs =
     (if snd e = observer then remove_observer_loop observer rest True
      else (case remove_observer_loop observer rest found_obs of
              (rest', found') \<Rightarrow> (e # rest', found')))"

definition remove_observer :: "obs_ptr \<Rightarrow> obs_map_t \<Rightarrow> failure + obs_map_t" where
  "remove_observer observer observers =
     (case remove_observer_loop observer observers False of
        (observers', found_obs) \<Rightarrow>
          if found_obs then Inr observers' else Inl CephAssertFail)"

text \<open>\<open>for_each_observer\<close>: the callback's invocations, in map order.\<close>

fun for_each_observer :: "obs_map_t \<Rightarrow> (obs_ptr \<times> string) list" where
  "for_each_observer [] = []"
| "for_each_observer ((key, obs) # rest) = (obs, key) # for_each_observer rest"

text \<open>
  A \<open>std::set\<close> that is iterated is the list of its elements in ascending order.
\<close>

definition std_set :: "'a::linorder list \<Rightarrow> bool" where
  "std_set xs = (sorted xs \<and> distinct xs)"

text \<open>
  \<open>for_each_change\<close>. The result is the sequence of callback invocations
  \<open>(observer, key)\<close> and the diagnostic stream; \<open>oss = None\<close> is the null stream pointer.
  \<open>proxy key = Some val\<close> stands for \<open>proxy.get_val(key, &val)\<close> returning 0.
\<close>

definition oss_emit :: "string option \<Rightarrow> string \<Rightarrow> string option" where
  "oss_emit oss txt = (case oss of None \<Rightarrow> None | Some out \<Rightarrow> Some (out @ txt))"

fun for_each_change ::
  "obs_map_t \<Rightarrow> string list \<Rightarrow> (string \<Rightarrow> string option) \<Rightarrow> string option
     \<Rightarrow> (obs_ptr \<times> string) list \<times> string option" where
  "for_each_change observers [] proxy oss = ([], oss)"
| "for_each_change observers (key # changes) proxy oss =
     (let range = mm_equal_range observers key;
          oss1 = (case proxy key of
                    None \<Rightarrow> oss
                  | Some val \<Rightarrow>
                      oss_emit
                        (oss_emit oss (key @ '' = '' @ [CHR 0x27] @ val @ [CHR 0x27] @ '' ''))
                        (if range = [] then ''(not observed, change may require restart) ''
                         else []));
          calls = map (\<lambda>r. (snd r, key)) range
      in case for_each_change observers changes proxy oss1 of
           (more_calls, oss2) \<Rightarrow> (calls @ more_calls, oss2))"

definition is_tracking :: "obs_map_t \<Rightarrow> string \<Rightarrow> bool" where
  "is_tracking observers name = (length (mm_equal_range observers name) > 0)"

text \<open>
  Key arrays and a proxy for the examples: an observer that tracks \<open>debug_ms\<close> and
  \<open>log_file\<close>, one whose array names \<open>debug_ms\<close> twice, and a proxy whose \<open>get_val\<close> fails.
\<close>

definition log_keys :: "obs_ptr \<Rightarrow> string list" where
  "log_keys observer = [''debug_ms'', ''log_file'']"

definition doubled_keys :: "obs_ptr \<Rightarrow> string list" where
  "doubled_keys observer = [''debug_ms'', ''debug_ms'']"

definition no_value :: "string \<Rightarrow> string option" where
  "no_value key = None"

section \<open>CephContext: singleton registry and fork watchers (ceph\_context.h, ceph\_context.cc)\<close>

text \<open>
  \<open>std::type_index\<close> is an opaque, totally ordered type identity. A stored
  \<open>ceph::immobile_any\<close> knows the type it holds (\<open>held_type\<close>), which \<open>any_cast\<close> checks, and
  the value constructed in place from the constructor arguments (\<open>held_value\<close>).
  \<open>instance_id\<close> is the identity of the constructed object: the number of singleton
  constructions that preceded its own in this context. It stands for object identity, not
  for the storage address, which an allocator may reuse after an erase.
\<close>

type_synonym type_index = nat

record 'a immobile_any =
  held_type :: type_index
  instance_id :: nat
  held_value :: 'a

text \<open>
  \<open>associated_objs\<close> is a \<open>std::map\<close> keyed by \<open>(name, type)\<close> under \<open>associated_objs_cmp\<close>,
  the lexicographic order of the pair: a list of entries in ascending key order.
  \<open>associated_objs_drop_on_fork\<close> is a \<open>std::set<std::string>\<close> of which only \<open>insert\<close>,
  \<open>count\<close> and \<open>clear\<close> are used. \<open>fork_watchers\<close> is the vector \<open>_fork_watchers\<close> of
  \<open>ForkWatcher*\<close>. Two fields record history and are not members of the class:
  \<open>constructions\<close>, the keys of the singletons constructed so far, in order, and
  \<open>fork_calls\<close>, the watcher hooks invoked so far, in order.
\<close>

type_synonym 'a objs_map = "((string \<times> type_index) \<times> 'a immobile_any) list"

type_synonym fork_watcher = nat

datatype fork_event = HandlePreFork fork_watcher | HandlePostFork fork_watcher

record 'a CephContext =
  associated_objs :: "'a objs_map"
  associated_objs_drop_on_fork :: "string set"
  fork_watchers :: "fork_watcher list"
  constructions :: "(string \<times> type_index) list"
  fork_calls :: "fork_event list"

definition new_CephContext :: "'a CephContext" where
  "new_CephContext = \<lparr>associated_objs = [], associated_objs_drop_on_fork = {},
     fork_watchers = [], constructions = [], fork_calls = []\<rparr>"

text \<open>
  \<open>map::find\<close> with the comparator: the entry that is neither less nor greater than the key.
\<close>

fun map_find :: "('k::linorder \<times> 'v) list \<Rightarrow> 'k \<Rightarrow> 'v option" where
  "map_find [] k = None"
| "map_find (e # es) k =
     (if fst e < k then map_find es k else if k < fst e then None else Some (snd e))"

text \<open>\<open>map::emplace_hint\<close>: inserts at the key's position unless the key is present.\<close>

fun map_emplace :: "'k::linorder \<Rightarrow> 'v \<Rightarrow> ('k \<times> 'v) list \<Rightarrow> ('k \<times> 'v) list" where
  "map_emplace k v [] = [(k, v)]"
| "map_emplace k v (e # es) =
     (if k < fst e then (k, v) # e # es
      else if fst e < k then e # map_emplace k v es
      else e # es)"

text \<open>
  \<open>lookup_or_create_singleton_object<T>(name, drop_on_fork, args...)\<close>, with the template
  argument as the first parameter. The \<open>static_assert\<close> on the size of \<open>T\<close> is a compile-time
  check and has no run-time behaviour. The result is the slot referred to by the returned
  \<open>T&\<close>; \<open>any_cast<T&>\<close> throws \<open>bad_any_cast\<close> if the slot holds another type.
\<close>

definition lookup_or_create_singleton_object ::
  "type_index \<Rightarrow> string \<Rightarrow> bool \<Rightarrow> 'a \<Rightarrow> 'a CephContext
     \<Rightarrow> failure + ('a immobile_any \<times> 'a CephContext)" where
  "lookup_or_create_singleton_object T name drop_on_fork args cct =
     (let (i, cct') =
        (case map_find (associated_objs cct) (name, T) of
           None \<Rightarrow>
             (let obj = \<lparr>held_type = T, instance_id = length (constructions cct),
                         held_value = args\<rparr>
              in (obj,
                  cct\<lparr>associated_objs_drop_on_fork :=
                        (if drop_on_fork then insert name (associated_objs_drop_on_fork cct)
                         else associated_objs_drop_on_fork cct),
                      associated_objs := map_emplace (name, T) obj (associated_objs cct),
                      constructions := constructions cct @ [(name, T)]\<rparr>))
         | Some obj \<Rightarrow> (obj, cct))
      in if held_type i = T then Inr (i, cct') else Inl BadAnyCast)"

definition register_fork_watcher :: "fork_watcher \<Rightarrow> 'a CephContext \<Rightarrow> 'a CephContext" where
  "register_fork_watcher w cct = cct\<lparr>fork_watchers := fork_watchers cct @ [w]\<rparr>"

text \<open>
  \<open>notify_pre_fork\<close>. \<open>ForkWatcher::handle_pre_fork\<close> is pure virtual, so the effect of a
  watcher's hook on the context is the parameter \<open>handle_pre_fork\<close>. The first loop calls the
  hook of every watcher in vector order; the second loop erases every entry of
  \<open>associated_objs\<close> whose name (\<open>i->first.first\<close>) is counted in the drop set; then the drop
  set is cleared.
\<close>

fun pre_fork_loop ::
  "(fork_watcher \<Rightarrow> 'a CephContext \<Rightarrow> 'a CephContext) \<Rightarrow> fork_watcher list
     \<Rightarrow> 'a CephContext \<Rightarrow> 'a CephContext" where
  "pre_fork_loop handle_pre_fork [] cct = cct"
| "pre_fork_loop handle_pre_fork (t # ts) cct =
     pre_fork_loop handle_pre_fork ts
       (handle_pre_fork t (cct\<lparr>fork_calls := fork_calls cct @ [HandlePreFork t]\<rparr>))"

fun erase_dropped :: "string set \<Rightarrow> 'a objs_map \<Rightarrow> 'a objs_map" where
  "erase_dropped dropset [] = []"
| "erase_dropped dropset (i # rest) =
     (if fst (fst i) \<in> dropset then erase_dropped dropset rest
      else i # erase_dropped dropset rest)"

definition notify_pre_fork ::
  "(fork_watcher \<Rightarrow> 'a CephContext \<Rightarrow> 'a CephContext) \<Rightarrow> 'a CephContext \<Rightarrow> 'a CephContext" where
  "notify_pre_fork handle_pre_fork cct =
     (let cct1 = pre_fork_loop handle_pre_fork (fork_watchers cct) cct;
          cct2 = cct1\<lparr>associated_objs :=
                   erase_dropped (associated_objs_drop_on_fork cct1) (associated_objs cct1)\<rparr>
      in cct2\<lparr>associated_objs_drop_on_fork := {}\<rparr>)"

text \<open>
  \<open>notify_post_fork\<close> releases \<open>_fork_watchers_lock\<close> and calls the post-fork hook of every
  watcher in vector order.
\<close>

fun post_fork_loop ::
  "(fork_watcher \<Rightarrow> 'a CephContext \<Rightarrow> 'a CephContext) \<Rightarrow> fork_watcher list
     \<Rightarrow> 'a CephContext \<Rightarrow> 'a CephContext" where
  "post_fork_loop handle_post_fork [] cct = cct"
| "post_fork_loop handle_post_fork (t # ts) cct =
     post_fork_loop handle_post_fork ts
       (handle_post_fork t (cct\<lparr>fork_calls := fork_calls cct @ [HandlePostFork t]\<rparr>))"

definition notify_post_fork ::
  "(fork_watcher \<Rightarrow> 'a CephContext \<Rightarrow> 'a CephContext) \<Rightarrow> 'a CephContext \<Rightarrow> 'a CephContext" where
  "notify_post_fork handle_post_fork cct =
     post_fork_loop handle_post_fork (fork_watchers cct) cct"

text \<open>
  A sequence of singleton requests \<open>(T, name, drop_on_fork, args)\<close> made one after the other,
  a thrown \<open>bad_any_cast\<close> being caught by the caller. \<open>associated_objs\<close> and the drop set are
  private, so \<open>lookup_or_create_singleton_object\<close> is the only way for code outside the class
  to act on them; \<open>hooks_use_lookups\<close> says that of the watchers' hooks.
\<close>

type_synonym 'a singleton_request = "type_index \<times> string \<times> bool \<times> 'a"

fun run_lookups :: "'a singleton_request list \<Rightarrow> 'a CephContext \<Rightarrow> 'a CephContext" where
  "run_lookups [] cct = cct"
| "run_lookups ((T, name, drop_on_fork, args) # reqs) cct =
     (case lookup_or_create_singleton_object T name drop_on_fork args cct of
        Inl e \<Rightarrow> run_lookups reqs cct
      | Inr (obj, cct') \<Rightarrow> run_lookups reqs cct')"

definition hooks_use_lookups :: "(fork_watcher \<Rightarrow> 'a CephContext \<Rightarrow> 'a CephContext) \<Rightarrow> bool" where
  "hooks_use_lookups hook = (\<forall>w cct. \<exists>reqs. hook w cct = run_lookups reqs cct)"

text \<open>The hook of a watcher that does nothing before a fork.\<close>

definition idle_hook :: "fork_watcher \<Rightarrow> 'a CephContext \<Rightarrow> 'a CephContext" where
  "idle_hook w cct = cct"

text \<open>
  The representation invariant of the registry: the map is ordered by key without
  duplicate keys, every slot holds the type of its key, and every slot was constructed in
  the recorded past. The new context satisfies it and every operation preserves it.
\<close>

definition registry_ok :: "'a CephContext \<Rightarrow> bool" where
  "registry_ok cct =
     (sorted (map fst (associated_objs cct)) \<and> distinct (map fst (associated_objs cct))
      \<and> (\<forall>e \<in> set (associated_objs cct).
            held_type (snd e) = snd (fst e) \<and> instance_id (snd e) < length (constructions cct)))"

text \<open>
  Vocabulary of the proofs: \<open>extends c c'\<close> holds when \<open>c'\<close> keeps every slot, watcher and
  drop-set entry of \<open>c\<close> and has constructed only singletons whose key had no slot in \<open>c\<close>;
  \<open>new_slot\<close> and \<open>with_slot\<close> name the slot and the context that a creating lookup produces.
\<close>

definition extends :: "'a CephContext \<Rightarrow> 'a CephContext \<Rightarrow> bool" where
  "extends c c' =
     (registry_ok c' \<and> fork_watchers c' = fork_watchers c
      \<and> associated_objs_drop_on_fork c \<subseteq> associated_objs_drop_on_fork c'
      \<and> set (associated_objs c) \<subseteq> set (associated_objs c')
      \<and> (\<exists>ext. constructions c' = constructions c @ ext
                 \<and> set ext \<inter> fst ` set (associated_objs c) = {}))"

definition new_slot :: "type_index \<Rightarrow> 'a \<Rightarrow> 'a CephContext \<Rightarrow> 'a immobile_any" where
  "new_slot T a c = \<lparr>held_type = T, instance_id = length (constructions c), held_value = a\<rparr>"

definition with_slot ::
  "type_index \<Rightarrow> string \<Rightarrow> bool \<Rightarrow> 'a \<Rightarrow> 'a CephContext \<Rightarrow> 'a CephContext" where
  "with_slot T n d a c =
     c\<lparr>associated_objs_drop_on_fork :=
          (if d then insert n (associated_objs_drop_on_fork c)
           else associated_objs_drop_on_fork c),
       associated_objs := map_emplace (n, T) (new_slot T a c) (associated_objs c),
       constructions := constructions c @ [(n, T)]\<rparr>"

text \<open>
  The storage of the slots. The \<open>T&\<close> that \<open>lookup_or_create_singleton_object\<close> returns
  points into the map node that holds the slot; \<open>emplace_hint\<close> takes the node from
  \<open>std::allocator\<close> and \<open>erase\<close> gives it back. The allocator is not part of the repository:
  it is the parameter \<open>allocate\<close>, which answers the address of a new node from the addresses
  in use. Every node holds an \<open>immobile_any<largest_singleton>\<close> and so has the same size,
  whatever the type of the singleton: a freed node fits any later slot. \<open>node_address\<close>
  records the address of the node of every slot in the map; no other storage is tracked.
  The operations below are those above with this record kept beside them; the hooks of
  the watchers are given by the requests they make.
\<close>

record 'a placed_context =
  placed_cct :: "'a CephContext"
  node_address :: "((string \<times> type_index) \<times> nat) list"

definition lookup_placed ::
  "(nat list \<Rightarrow> nat) \<Rightarrow> type_index \<Rightarrow> string \<Rightarrow> bool \<Rightarrow> 'a \<Rightarrow> 'a placed_context
     \<Rightarrow> failure + ('a immobile_any \<times> 'a placed_context)" where
  "lookup_placed allocate T name drop_on_fork args p =
     (case lookup_or_create_singleton_object T name drop_on_fork args (placed_cct p) of
        Inl e \<Rightarrow> Inl e
      | Inr (obj, cct') \<Rightarrow>
          Inr (obj,
               \<lparr>placed_cct = cct',
                node_address =
                  (if map_find (associated_objs (placed_cct p)) (name, T) = None
                   then ((name, T), allocate (map snd (node_address p))) # node_address p
                   else node_address p)\<rparr>))"

fun run_lookups_placed ::
  "(nat list \<Rightarrow> nat) \<Rightarrow> 'a singleton_request list \<Rightarrow> 'a placed_context
     \<Rightarrow> 'a placed_context" where
  "run_lookups_placed allocate [] p = p"
| "run_lookups_placed allocate ((T, name, drop_on_fork, args) # reqs) p =
     (case lookup_placed allocate T name drop_on_fork args p of
        Inl e \<Rightarrow> run_lookups_placed allocate reqs p
      | Inr (obj, p') \<Rightarrow> run_lookups_placed allocate reqs p')"

fun pre_fork_loop_placed ::
  "(nat list \<Rightarrow> nat) \<Rightarrow> (fork_watcher \<Rightarrow> 'a singleton_request list) \<Rightarrow> fork_watcher list
     \<Rightarrow> 'a placed_context \<Rightarrow> 'a placed_context" where
  "pre_fork_loop_placed allocate script [] p = p"
| "pre_fork_loop_placed allocate script (t # ts) p =
     pre_fork_loop_placed allocate script ts
       (run_lookups_placed allocate (script t)
          (p\<lparr>placed_cct :=
               (placed_cct p)\<lparr>fork_calls := fork_calls (placed_cct p) @ [HandlePreFork t]\<rparr>\<rparr>))"

definition notify_pre_fork_placed ::
  "(nat list \<Rightarrow> nat) \<Rightarrow> (fork_watcher \<Rightarrow> 'a singleton_request list) \<Rightarrow> 'a placed_context
     \<Rightarrow> 'a placed_context" where
  "notify_pre_fork_placed allocate script p =
     (let p1 = pre_fork_loop_placed allocate script (fork_watchers (placed_cct p)) p;
          cct1 = placed_cct p1
      in \<lparr>placed_cct =
            cct1\<lparr>associated_objs :=
                   erase_dropped (associated_objs_drop_on_fork cct1) (associated_objs cct1),
                 associated_objs_drop_on_fork := {}\<rparr>,
          node_address =
            filter (\<lambda>e. fst (fst e) \<notin> associated_objs_drop_on_fork cct1) (node_address p1)\<rparr>)"





section \<open>Error numbers\<close>

text \<open>The values of the \<open>errno\<close> constants that the code names, as on Linux.\<close>

definition ENOENT :: int where "ENOENT = 2"
definition EBADF :: int where "EBADF = 9"
definition EAGAIN :: int where "EAGAIN = 11"
definition EINVAL :: int where "EINVAL = 22"
definition EDOM :: int where "EDOM = 33"
definition ENAMETOOLONG :: int where "ENAMETOOLONG = 36"
definition ESTALE :: int where "ESTALE = 116"

section \<open>CephContext::do\_command (ceph\_context.cc)\<close>

text \<open>
  The collaborators of \<open>do_command\<close> are outside the repository's sources: the formatter,
  the performance counters, the configuration proxy, the log and \<open>cmd_getval\<close>. What the
  function does to them is recorded as the sequence of \<open>action\<close>s it performs; what they
  answer is given by an environment \<open>admin_env\<close>. The command map is of an arbitrary type
  \<open>'m\<close>, read only through \<open>cmd_getval\<close> (which answers \<open>Inl BadCmdGet\<close> when it throws), and
  the state of the configuration is of an arbitrary type \<open>'c\<close>. The two \<open>lgeneric_dout\<close>
  lines and the creation and deletion of the formatter are left out.

  The result is the fault or exception that ended the call, if any, the actions performed
  up to that point, and the configuration.
\<close>

datatype action =
    OpenObjectSection string
  | OpenArraySection string
  | CloseSection
  | DumpString string string
  | DumpObject string string
  | PerfDumpFormatted bool string string
  | PerfDumpFormattedHistograms bool string string
  | PerfReset string
  | ShowConfig
  | ConfDiff
  | ConfDiffSetting string
  | LogFlush
  | LogDumpRecent
  | LogReopenLogFile
  | FormatterFlush

record ('m, 'c) admin_env =
  debug_asok_assert_abort :: "'c \<Rightarrow> bool"
  cmd_getval_string :: "'m \<Rightarrow> string \<Rightarrow> failure + string option"
  cmd_getval_strings :: "'m \<Rightarrow> string \<Rightarrow> failure + string list option"
  perf_reset :: "string \<Rightarrow> bool"
  rm_val :: "string \<Rightarrow> 'c \<Rightarrow> int \<times> 'c"
  set_val :: "string \<Rightarrow> string \<Rightarrow> 'c \<Rightarrow> int \<times> 'c"
  get_val :: "string \<Rightarrow> 'c \<Rightarrow> int \<times> string"
  apply_changes :: "'c \<Rightarrow> string \<times> 'c"
  get_schema :: "string \<Rightarrow> string option"
  normalize_key_name :: "string \<Rightarrow> string"
  cpp_strerror :: "int \<Rightarrow> string"
  ceph_options :: "string list"

type_synonym 'c cmd_result = "failure option \<times> action list \<times> 'c"

definition squote :: string where "squote = [CHR 0x27]"

text \<open>\<open>boost::replace_all(section, " ", "_")\<close>.\<close>

definition replace_spaces :: "string \<Rightarrow> string" where
  "replace_spaces s = map (\<lambda>c. if c = CHR '' '' then CHR ''_'' else c) s"

fun str_join :: "string list \<Rightarrow> string \<Rightarrow> string" where
  "str_join [] sep = []"
| "str_join [v] sep = v"
| "str_join (v # w # vs) sep = v @ sep @ str_join (w # vs) sep"

text \<open>A \<open>std::string\<close> that \<open>cmd_getval\<close> did not assign keeps its initial empty value.\<close>

definition or_empty :: "string option \<Rightarrow> string" where
  "or_empty v = (case v of None \<Rightarrow> [] | Some s \<Rightarrow> s)"

text \<open>
  The chain of comparisons inside the last \<open>else\<close> of \<open>do_command\<close>, between
  \<open>open_object_section(section)\<close> and \<open>close_section()\<close>. In the branch of
  \<open>config diff get\<close> the local \<open>setting\<close> is default-constructed and passed on as it is.
\<close>

definition do_command_section ::
  "('m, 'c) admin_env \<Rightarrow> string \<Rightarrow> 'm \<Rightarrow> 'c \<Rightarrow> 'c cmd_result" where
  "do_command_section e command cmdmap conf =
     (if command = ''config show'' then (None, [ShowConfig], conf)
      else if command = ''config unset'' then
        (case cmd_getval_string e cmdmap ''var'' of
           Inl x \<Rightarrow> (Some x, [], conf)
         | Inr None \<Rightarrow>
             (None, [DumpString ''error''
                       (''syntax error: '' @ squote @ ''config unset <var>'' @ squote)], conf)
         | Inr (Some var) \<Rightarrow>
             (case rm_val e var conf of
                (r, conf1) \<Rightarrow>
                  if r < 0 \<and> r \<noteq> - ENOENT then
                    (None, [DumpString ''error''
                              (''error unsetting '' @ squote @ var @ squote @ '': ''
                                 @ cpp_strerror e r)], conf1)
                  else (case apply_changes e conf1 of
                          (ss, conf2) \<Rightarrow> (None, [DumpString ''success'' ss], conf2))))
      else if command = ''config set'' then
        (case cmd_getval_string e cmdmap ''var'' of
           Inl x \<Rightarrow> (Some x, [], conf)
         | Inr None \<Rightarrow>
             (None, [DumpString ''error''
                       (''syntax error: '' @ squote @ ''config set <var> <value>'' @ squote)],
              conf)
         | Inr (Some var) \<Rightarrow>
             (case cmd_getval_strings e cmdmap ''val'' of
                Inl x \<Rightarrow> (Some x, [], conf)
              | Inr None \<Rightarrow>
                  (None, [DumpString ''error''
                            (''syntax error: '' @ squote @ ''config set <var> <value>''
                               @ squote)], conf)
              | Inr (Some val) \<Rightarrow>
                  (let valstr = str_join val '' '' in
                   case set_val e var valstr conf of
                     (r, conf1) \<Rightarrow>
                       if r < 0 then
                         (None, [DumpString ''error''
                                   (''error setting '' @ squote @ var @ squote @ '' to ''
                                      @ squote @ valstr @ squote @ '': '' @ cpp_strerror e r)],
                          conf1)
                       else (case apply_changes e conf1 of
                               (ss, conf2) \<Rightarrow> (None, [DumpString ''success'' ss], conf2)))))
      else if command = ''config get'' then
        (case cmd_getval_string e cmdmap ''var'' of
           Inl x \<Rightarrow> (Some x, [], conf)
         | Inr None \<Rightarrow>
             (None, [DumpString ''error''
                       (''syntax error: '' @ squote @ ''config get <var>'' @ squote)], conf)
         | Inr (Some var) \<Rightarrow>
             (case get_val e var conf of
                (r, buf) \<Rightarrow>
                  if r < 0 then
                    (None, [DumpString ''error''
                              (''error getting '' @ squote @ var @ squote @ '': ''
                                 @ cpp_strerror e r)], conf)
                  else (None, [DumpString var buf], conf)))
      else if command = ''config help'' then
        (case cmd_getval_string e cmdmap ''var'' of
           Inl x \<Rightarrow> (Some x, [], conf)
         | Inr (Some var) \<Rightarrow>
             (let key = normalize_key_name e var in
              case get_schema e key of
                None \<Rightarrow>
                  (None, [DumpString ''error''
                            (''Setting not found: '' @ squote @ key @ squote)], conf)
              | Some schema \<Rightarrow> (None, [DumpObject ''option'' schema], conf))
         | Inr None \<Rightarrow>
             (None, [OpenArraySection ''options'']
                      @ map (DumpObject ''option'') (ceph_options e) @ [CloseSection], conf))
      else if command = ''config diff'' then
        (None, [OpenObjectSection ''diff'', ConfDiff, CloseSection], conf)
      else if command = ''config diff get'' then
        (let setting = [] in
         (None, [OpenObjectSection ''diff'', ConfDiffSetting setting, CloseSection], conf))
      else if command = ''log flush'' then (None, [LogFlush], conf)
      else if command = ''log dump'' then (None, [LogDumpRecent], conf)
      else if command = ''log reopen'' then (None, [LogReopenLogFile], conf)
      else (Some (CephAbortMsg ''registered under wrong command?''), [], conf))"

text \<open>
  \<open>do_command\<close>: first \<open>ceph_assert_always(!(command == "assert" && debug_asok_assert_abort))\<close>,
  then \<open>ceph_abort()\<close> for \<open>abort\<close> under the same option, then the dispatch.
\<close>

definition do_command ::
  "('m, 'c) admin_env \<Rightarrow> string \<Rightarrow> 'm \<Rightarrow> 'c \<Rightarrow> 'c cmd_result" where
  "do_command e command cmdmap conf =
     (if command = ''assert'' \<and> debug_asok_assert_abort e conf then
        (Some CephAssertFail, [], conf)
      else if command = ''abort'' \<and> debug_asok_assert_abort e conf then
        (Some CephAbort, [], conf)
      else if command = ''perfcounters_dump'' \<or> command = ''1'' \<or> command = ''perf dump'' then
        (case cmd_getval_string e cmdmap ''logger'' of
           Inl x \<Rightarrow> (Some x, [], conf)
         | Inr logger \<Rightarrow>
             (case cmd_getval_string e cmdmap ''counter'' of
                Inl x \<Rightarrow> (Some x, [], conf)
              | Inr counter \<Rightarrow>
                  (None, [PerfDumpFormatted False (or_empty logger) (or_empty counter),
                          FormatterFlush], conf)))
      else if command = ''perfcounters_schema'' \<or> command = ''2''
              \<or> command = ''perf schema'' then
        (None, [PerfDumpFormatted True [] [], FormatterFlush], conf)
      else if command = ''perf histogram dump'' then
        (case cmd_getval_string e cmdmap ''logger'' of
           Inl x \<Rightarrow> (Some x, [], conf)
         | Inr logger \<Rightarrow>
             (case cmd_getval_string e cmdmap ''counter'' of
                Inl x \<Rightarrow> (Some x, [], conf)
              | Inr counter \<Rightarrow>
                  (None, [PerfDumpFormattedHistograms False (or_empty logger) (or_empty counter),
                          FormatterFlush], conf)))
      else if command = ''perf histogram schema'' then
        (None, [PerfDumpFormattedHistograms True [] [], FormatterFlush], conf)
      else if command = ''perf reset'' then
        (case cmd_getval_string e cmdmap ''var'' of
           Inl x \<Rightarrow> (Some x, [OpenObjectSection command], conf)
         | Inr None \<Rightarrow>
             (None, [OpenObjectSection command,
                     DumpString ''error''
                       (''syntax error: '' @ squote @ ''perf reset <var>'' @ squote),
                     CloseSection, FormatterFlush], conf)
         | Inr (Some var) \<Rightarrow>
             (None, [OpenObjectSection command, PerfReset var,
                     (if \<not> perf_reset e var then DumpString ''error'' (''Not find: '' @ var)
                      else DumpString ''success'' (command @ '' '' @ var)),
                     CloseSection, FormatterFlush], conf))
      else
        (case do_command_section e command cmdmap conf of
           (Some x, acts, conf') \<Rightarrow>
             (Some x, OpenObjectSection (replace_spaces command) # acts, conf')
         | (None, acts, conf') \<Rightarrow>
             (None, OpenObjectSection (replace_spaces command) # acts
                      @ [CloseSection, FormatterFlush], conf')))"

section \<open>The pid file (pidfile.cc)\<close>

text \<open>
  The system calls that \<open>pidfh\<close> makes, over a small model of the process's view of the
  file system: \<open>os_names\<close> maps a path to the identity \<open>(st_dev, st_ino)\<close> of the file it
  names, \<open>os_files\<close> a file to its bytes, \<open>os_fds\<close> an open descriptor of this process to its
  file and offset; \<open>os_foreign_locks\<close> lists the files on which another process holds a
  lock; \<open>os_stat_errors\<close> lists the paths on which \<open>stat\<close> fails for a reason of its own,
  each with its \<open>errno\<close> (a directory that cannot be searched, a stale NFS handle and so
  on). A call that fails answers \<open>Inl errno\<close>. \<open>stat\<close> fails with the listed error, or with
  \<open>ENOENT\<close> for a path that names nothing. In this model \<open>unlink\<close> fails only for a path
  that names nothing, \<open>open\<close> (with \<open>O_CREAT|O_RDWR\<close>) only for the empty path, and the
  calls on a descriptor only for one that is not open.
\<close>

definition PATH_MAX :: nat where "PATH_MAX = 4096"

type_synonym file_id = "nat \<times> nat"

record os_state =
  os_pid :: int
  os_names :: "(string \<times> file_id) list"
  os_files :: "(file_id \<times> string) list"
  os_fds :: "(int \<times> file_id \<times> nat) list"
  os_foreign_locks :: "file_id list"
  os_stat_errors :: "(string \<times> int) list"
  os_next_fd :: nat
  os_next_ino :: nat

definition al_update :: "'k \<Rightarrow> 'v \<Rightarrow> ('k \<times> 'v) list \<Rightarrow> ('k \<times> 'v) list" where
  "al_update k v al = (k, v) # filter (\<lambda>e. fst e \<noteq> k) al"

definition al_delete :: "'k \<Rightarrow> ('k \<times> 'v) list \<Rightarrow> ('k \<times> 'v) list" where
  "al_delete k al = filter (\<lambda>e. fst e \<noteq> k) al"

definition sys_stat :: "string \<Rightarrow> os_state \<Rightarrow> int + file_id" where
  "sys_stat path os =
     (case map_of (os_stat_errors os) path of
        Some err \<Rightarrow> Inl err
      | None \<Rightarrow>
          (case map_of (os_names os) path of None \<Rightarrow> Inl ENOENT | Some fid \<Rightarrow> Inr fid))"

definition sys_open :: "string \<Rightarrow> os_state \<Rightarrow> int + (int \<times> os_state)" where
  "sys_open path os =
     (if path = [] then Inl ENOENT
      else
          (let fd = int (os_next_fd os) in
           case map_of (os_names os) path of
             Some fid \<Rightarrow>
               Inr (fd, os\<lparr>os_fds := al_update fd (fid, 0) (os_fds os),
                          os_next_fd := Suc (os_next_fd os)\<rparr>)
           | None \<Rightarrow>
               (let fid = (0, os_next_ino os) in
                Inr (fd, os\<lparr>os_names := al_update path fid (os_names os),
                           os_files := al_update fid [] (os_files os),
                           os_fds := al_update fd (fid, 0) (os_fds os),
                           os_next_fd := Suc (os_next_fd os),
                           os_next_ino := Suc (os_next_ino os)\<rparr>))))"

definition sys_fstat :: "int \<Rightarrow> os_state \<Rightarrow> int + file_id" where
  "sys_fstat fd os =
     (case map_of (os_fds os) fd of None \<Rightarrow> Inl EBADF | Some (fid, off) \<Rightarrow> Inr fid)"

text \<open>\<open>fcntl(fd, F_SETLK, &l)\<close> with a write lock on the whole file; \<open>None\<close> is success.\<close>

definition sys_fcntl_setlk :: "int \<Rightarrow> os_state \<Rightarrow> int option" where
  "sys_fcntl_setlk fd os =
     (case map_of (os_fds os) fd of
        None \<Rightarrow> Some EBADF
      | Some (fid, off) \<Rightarrow> if fid \<in> set (os_foreign_locks os) then Some EAGAIN else None)"

definition sys_close :: "int \<Rightarrow> os_state \<Rightarrow> os_state" where
  "sys_close fd os = os\<lparr>os_fds := al_delete fd (os_fds os)\<rparr>"

text \<open>\<open>lseek(fd, 0, SEEK_SET)\<close>.\<close>

definition sys_lseek_set :: "int \<Rightarrow> os_state \<Rightarrow> int + os_state" where
  "sys_lseek_set fd os =
     (case map_of (os_fds os) fd of
        None \<Rightarrow> Inl EBADF
      | Some (fid, off) \<Rightarrow> Inr (os\<lparr>os_fds := al_update fd (fid, 0) (os_fds os)\<rparr>))"

definition file_content :: "os_state \<Rightarrow> file_id \<Rightarrow> string" where
  "file_content os fid = (case map_of (os_files os) fid of None \<Rightarrow> [] | Some c \<Rightarrow> c)"

definition safe_read :: "int \<Rightarrow> nat \<Rightarrow> os_state \<Rightarrow> int + (string \<times> os_state)" where
  "safe_read fd count os =
     (case map_of (os_fds os) fd of
        None \<Rightarrow> Inl EBADF
      | Some (fid, off) \<Rightarrow>
          (let data = take count (drop off (file_content os fid)) in
           Inr (data, os\<lparr>os_fds := al_update fd (fid, off + length data) (os_fds os)\<rparr>)))"

text \<open>\<open>ftruncate(fd, 0)\<close>.\<close>

definition sys_ftruncate :: "int \<Rightarrow> os_state \<Rightarrow> int + os_state" where
  "sys_ftruncate fd os =
     (case map_of (os_fds os) fd of
        None \<Rightarrow> Inl EBADF
      | Some (fid, off) \<Rightarrow> Inr (os\<lparr>os_files := al_update fid [] (os_files os)\<rparr>))"

definition safe_write :: "int \<Rightarrow> string \<Rightarrow> os_state \<Rightarrow> int + os_state" where
  "safe_write fd buf os =
     (case map_of (os_fds os) fd of
        None \<Rightarrow> Inl EBADF
      | Some (fid, off) \<Rightarrow>
          (let old = file_content os fid;
               new = take off old @ replicate (off - length old) (CHR 0x00) @ buf
                       @ drop (off + length buf) old
           in Inr (os\<lparr>os_files := al_update fid new (os_files os),
                      os_fds := al_update fd (fid, off + length buf) (os_fds os)\<rparr>)))"

definition sys_unlink :: "string \<Rightarrow> os_state \<Rightarrow> int + os_state" where
  "sys_unlink path os =
     (case map_of (os_names os) path of
        None \<Rightarrow> Inl ENOENT
      | Some fid \<Rightarrow> Inr (os\<lparr>os_names := al_delete path (os_names os)\<rparr>))"

text \<open>
  \<open>snprintf(buf, sizeof(buf), "%d\n", getpid())\<close> needs the decimal numeral of an \<open>int\<close>;
  \<open>atoi\<close> is \<open>(int) strtol(s, NULL, 10)\<close> as in glibc: leading white space, an optional
  sign, the longest run of digits, saturated to the range of \<open>long\<close> and truncated to 32 bits.
\<close>

fun dec_nat :: "nat \<Rightarrow> string" where
  "dec_nat n =
     (if n < 10 then [''0123456789'' ! n]
      else dec_nat (n div 10) @ [''0123456789'' ! (n mod 10)])"

definition dec_int :: "int \<Rightarrow> string" where
  "dec_int i = (if i < 0 then CHR ''-'' # dec_nat (nat (- i)) else dec_nat (nat i))"

definition isspace :: "char \<Rightarrow> bool" where
  "isspace c = (c = CHR '' '' \<or> (9 \<le> (of_char c :: nat) \<and> (of_char c :: nat) \<le> 13))"

definition isdigit :: "char \<Rightarrow> bool" where
  "isdigit c = (48 \<le> (of_char c :: nat) \<and> (of_char c :: nat) \<le> 57)"

fun digits_value :: "int \<Rightarrow> string \<Rightarrow> int" where
  "digits_value acc [] = acc"
| "digits_value acc (c # cs) =
     (if isdigit c then digits_value (acc * 10 + (int (of_char c) - 48)) cs else acc)"

definition strtol :: "string \<Rightarrow> int" where
  "strtol s =
     (let t = dropWhile isspace s;
          v = (case t of
                 [] \<Rightarrow> 0
               | c # cs \<Rightarrow>
                   if c = CHR ''-'' then - digits_value 0 cs
                   else if c = CHR ''+'' then digits_value 0 cs
                   else digits_value 0 t)
      in max (- (2 ^ 63)) (min (2 ^ 63 - 1) v))"

definition atoi :: "string \<Rightarrow> int" where
  "atoi s = sint (word_of_int (strtol s) :: 32 word)"

text \<open>
  \<open>struct pidfh\<close>. \<open>pf_path\<close> is the string held in the array \<open>char pf_path[PATH_MAX + 1]\<close>.
  Each member function takes the handle and the system state and returns its \<open>int\<close> result
  with the handle and state it leaves. The messages written to \<open>derr\<close> and \<open>std::cerr\<close> are
  left out.
\<close>

record pidfh =
  pf_fd :: int
  pf_path :: string
  pf_dev :: nat
  pf_ino :: nat

definition pidfh_reset :: pidfh where
  "pidfh_reset = \<lparr>pf_fd = - 1, pf_path = [], pf_dev = 0, pf_ino = 0\<rparr>"

definition pidfh_is_open :: "pidfh \<Rightarrow> bool" where
  "pidfh_is_open h = (pf_path h \<noteq> [] \<and> pf_fd h \<noteq> - 1)"

definition pidfh_verify :: "pidfh \<Rightarrow> os_state \<Rightarrow> int" where
  "pidfh_verify h os =
     (if pf_fd h = - 1 then - EINVAL
      else case sys_stat (pf_path h) os of
             Inl err \<Rightarrow> - err
           | Inr (st_dev, st_ino) \<Rightarrow>
               if st_dev \<noteq> pf_dev h \<or> st_ino \<noteq> pf_ino h then - ESTALE else 0)"

definition pidfh_remove :: "pidfh \<Rightarrow> os_state \<Rightarrow> int \<times> pidfh \<times> os_state" where
  "pidfh_remove h os =
     (if pf_path h = [] then (0, h, os)
      else
        (let ret = pidfh_verify h os in
         if ret < 0 then
           (if pf_fd h \<noteq> - 1 then (ret, pidfh_reset, sys_close (pf_fd h) os)
            else (ret, h, os))
         else
           (case sys_lseek_set (pf_fd h) os of
              Inl err \<Rightarrow> (- err, h, os)
            | Inr os1 \<Rightarrow>
                (case safe_read (pf_fd h) 32 os1 of
                   Inl err \<Rightarrow> (- err, h, sys_close (pf_fd h) os1)
                 | Inr (buf, os2) \<Rightarrow>
                     (let os3 = sys_close (pf_fd h) os2;
                          a = atoi buf
                      in if a \<noteq> os_pid os3 then (- EDOM, h, os3)
                         else (case sys_unlink (pf_path h) os3 of
                                 Inl err \<Rightarrow> (- err, h, os3)
                               | Inr os4 \<Rightarrow> (0, pidfh_reset, os4)))))))"

text \<open>
  \<open>pidfh::open\<close>, with the configured \<open>pid_file\<close> as parameter. \<open>snprintf\<close> stores at most
  \<open>PATH_MAX\<close> characters of it and returns its full length.
\<close>

definition pidfh_open :: "string \<Rightarrow> pidfh \<Rightarrow> os_state \<Rightarrow> int \<times> pidfh \<times> os_state" where
  "pidfh_open pid_file h os =
     (let len = length pid_file;
          h1 = h\<lparr>pf_path := take PATH_MAX pid_file\<rparr>
      in if len \<ge> PATH_MAX + 1 then (- ENAMETOOLONG, h1, os)
         else (case sys_open (pf_path h1) os of
                 Inl err \<Rightarrow> (- err, pidfh_reset, os)
               | Inr (fd, os1) \<Rightarrow>
                   (case sys_fstat fd os1 of
                      Inl err \<Rightarrow> (- err, pidfh_reset, sys_close fd os1)
                    | Inr (st_dev, st_ino) \<Rightarrow>
                        (let h2 = h1\<lparr>pf_fd := fd, pf_dev := st_dev, pf_ino := st_ino\<rparr>
                         in case sys_fcntl_setlk fd os1 of
                              Some err \<Rightarrow> (- err, pidfh_reset, sys_close fd os1)
                            | None \<Rightarrow> (0, h2, os1)))))"

definition pidfh_write :: "pidfh \<Rightarrow> os_state \<Rightarrow> int \<times> os_state" where
  "pidfh_write h os =
     (if \<not> pidfh_is_open h then (0, os)
      else
        (let buf = dec_int (os_pid os) @ [CHR 0x0A]
         in case sys_ftruncate (pf_fd h) os of
              Inl err \<Rightarrow> (- err, os)
            | Inr os1 \<Rightarrow>
                (case safe_write (pf_fd h) buf os1 of
                   Inl err \<Rightarrow> (- err, os1)
                 | Inr os2 \<Rightarrow> (0, os2))))"


section \<open>Properties of the observer manager\<close>

lemma remove_observer_loop_eq:
  "remove_observer_loop ob m f = (filter (\<lambda>e. snd e \<noteq> ob) m, f \<or> ob \<in> snd ` set m)"
  by (induction m arbitrary: f) auto

text \<open>
  Claim C7. \<open>remove_observer\<close> of an observer that has associations returns the map without
  any entry of that observer, every other entry kept in place; of an observer that has no
  association it is the failed \<open>ceph_assert\<close>, which terminates the process.
\<close>

theorem remove_observer_spec:
  "(observer \<in> snd ` set observers \<longrightarrow>
      remove_observer observer observers = Inr (filter (\<lambda>e. snd e \<noteq> observer) observers)
      \<and> observer \<notin> snd ` set (filter (\<lambda>e. snd e \<noteq> observer) observers))
   \<and> (observer \<notin> snd ` set observers \<longrightarrow>
      remove_observer observer observers = Inl CephAssertFail
      \<and> is_fatal CephAssertFail)"
  by (auto simp: remove_observer_def remove_observer_loop_eq)

theorem remove_observer_spec_witness:
  "remove_observer 1 [(''debug_ms'', 2), (''log_file'', 1), (''log_file'', 2), (''log_to_stderr'', 1)]
     = Inr [(''debug_ms'', 2), (''log_file'', 2)]
   \<and> remove_observer 3 [(''debug_ms'', 2), (''log_file'', 1)] = Inl CephAssertFail"
  using remove_observer_spec [of 1 "[(''debug_ms'', 2), (''log_file'', 1), (''log_file'', 2),
      (''log_to_stderr'', 1)]"]
    remove_observer_spec [of 3 "[(''debug_ms'', 2), (''log_file'', 1)]"]
  by simp

lemma set_mm_emplace: "set (mm_emplace k v m) = insert (k, v) (set m)"
  by (induction m) auto

lemma sorted_mm_emplace:
  "sorted (map fst m) \<Longrightarrow> sorted (map fst (mm_emplace k v m))"
  by (induction m) (auto simp: set_mm_emplace)

lemma filter_mm_emplace:
  "sorted (map fst m) \<Longrightarrow>
   filter (\<lambda>e. fst e = k') (mm_emplace k v m) =
     (if k = k' then filter (\<lambda>e. fst e = k') m @ [(k, v)] else filter (\<lambda>e. fst e = k') m)"
proof (induction m)
  case Nil then show ?case by simp
next
  case (Cons e m)
  show ?case
  proof (cases "k < fst e")
    case True
    with Cons.prems have "\<forall>x\<in>set (e # m). fst x \<noteq> k" by auto
    then have "filter (\<lambda>x. fst x = k) (e # m) = []" by (simp add: filter_empty_conv)
    with True show ?thesis by auto
  next
    case False
    with Cons show ?thesis by auto
  qed
qed

lemma mm_equal_range_filter:
  "sorted (map fst m) \<Longrightarrow> mm_equal_range m k = filter (\<lambda>e. fst e = k) m"
  unfolding mm_equal_range_def
proof (induction m)
  case Nil then show ?case by simp
next
  case (Cons e m)
  show ?case
  proof (cases "fst e < k")
    case True with Cons show ?thesis by auto
  next
    case False
    note nlt = False
    show ?thesis
    proof (cases "k < fst e")
      case True
      with Cons.prems have "\<forall>x\<in>set m. k < fst x" by auto
      then have "filter (\<lambda>e. fst e = k) m = []" by (auto simp: filter_empty_conv)
      with True nlt show ?thesis by auto
    next
      case False
      with nlt have eq: "fst e = k" by auto
      from Cons.prems eq have ge: "\<forall>x\<in>set m. k \<le> fst x" by auto
      have "takeWhile (\<lambda>e. \<not> k < fst e) m = filter (\<lambda>e. fst e = k) m"
      proof -
        from ge have "dropWhile (\<lambda>e. fst e < k) m = m"
          by (cases m) (auto)
        with Cons.IH Cons.prems show ?thesis by simp
      qed
      with eq show ?thesis by simp
    qed
  qed
qed


lemma sorted_add_observer_loop:
  "sorted (map fst m) \<Longrightarrow> sorted (map fst (add_observer_loop ks ob m))"
  by (induction ks arbitrary: m) (auto simp: sorted_mm_emplace)

lemma filter_add_observer_loop:
  "sorted (map fst m) \<Longrightarrow>
   filter (\<lambda>e. fst e = k) (add_observer_loop ks ob m) =
     filter (\<lambda>e. fst e = k) m @ replicate (count_list ks k) (k, ob)"
proof (induction ks arbitrary: m)
  case Nil then show ?case by simp
next
  case (Cons a ks)
  then show ?case
    by (simp add: sorted_mm_emplace filter_mm_emplace replicate_app_Cons_same)
qed

lemma for_each_change_calls:
  "sorted (map fst m) \<Longrightarrow>
   fst (for_each_change m changes proxy oss) =
     concat (map (\<lambda>key. map (\<lambda>r. (snd r, key)) (filter (\<lambda>e. fst e = key) m)) changes)"
  by (induction changes arbitrary: oss)
     (simp_all add: mm_equal_range_filter Let_def case_prod_beta)


lemma count_list_concat_map:
  "count_list (concat (map f xs)) y = sum_list (map (\<lambda>x. count_list (f x) y) xs)"
  by (induction xs) auto

lemma count_list_map_pair:
  "count_list (map (\<lambda>r. (snd r, key)) rs) (ob, k) =
     (if key = k then count_list (map snd rs) ob else 0)"
  by (induction rs) auto

lemma sum_list_indicator_distinct:
  "distinct xs \<Longrightarrow>
   sum_list (map (\<lambda>x. if x = k then (c::nat) else 0) xs) = (if k \<in> set xs then c else 0)"
  by (induction xs) auto

lemma for_each_change_count:
  assumes "sorted (map fst m)" and "distinct changes"
  shows "count_list (fst (for_each_change m changes proxy oss)) (ob, k) =
           (if k \<in> set changes then count_list m (k, ob) else 0)"
proof -
  have c: "count_list (map snd (filter (\<lambda>e. fst e = k) m)) ob = count_list m (k, ob)"
    by (induction m) auto
  have "count_list (fst (for_each_change m changes proxy oss)) (ob, k) =
          sum_list (map (\<lambda>key. if key = k then count_list m (k, ob) else 0) changes)"
    using assms(1) c
    by (simp add: for_each_change_calls count_list_concat_map count_list_map_pair cong: if_cong)
  then show ?thesis using assms(2) by (simp add: sum_list_indicator_distinct)
qed

lemma count_add_observer_loop:
  "count_list (add_observer_loop ks ob m) (k, ob') =
     count_list m (k, ob') + (if ob' = ob then count_list ks k else 0)"
proof (induction ks arbitrary: m)
  case Nil then show ?case by simp
next
  case (Cons a ks)
  have "count_list (mm_emplace a ob m) (k, ob') =
          count_list m (k, ob') + (if (a, ob) = (k, ob') then 1 else 0)" for m
    by (induction m) auto
  with Cons show ?case by auto
qed

lemma count_list_distinct:
  "distinct xs \<Longrightarrow> count_list xs x = (if x \<in> set xs then 1 else 0)"
  by (induction xs) auto

lemma filter_calls_of_observer:
  "filter (\<lambda>c. fst c = ob) (map (\<lambda>r. (snd r, key)) rs) =
     replicate (count_list (map snd rs) ob) (ob, key)"
  by (induction rs) auto

lemma count_list_snd_filter:
  "count_list (map snd (filter (\<lambda>e. fst e = k) m)) ob = count_list m (k, ob)"
  by (induction m) auto

lemma sorted_add_observer:
  "sorted (map fst m) \<Longrightarrow> sorted (map fst (add_observer g ob m))"
  by (simp add: add_observer_def sorted_add_observer_loop)

lemma sorted_remove_observer:
  assumes "sorted (map fst m)" and "remove_observer ob m = Inr m'"
  shows "sorted (map fst m')"
proof -
  from assms(2) have "m' = filter (\<lambda>e. snd e \<noteq> ob) m"
    by (auto simp: remove_observer_def remove_observer_loop_eq split: if_splits)
  with assms(1) show ?thesis by (simp add: sorted_filter)
qed

lemma for_each_change_single:
  assumes "sorted (map fst observers)"
      and "ob \<notin> snd ` set observers"
      and "distinct (get_tracked_conf_keys ob)"
      and "K1 \<in> set (get_tracked_conf_keys ob)"
  shows "filter (\<lambda>c. fst c = ob)
           (fst (for_each_change (add_observer get_tracked_conf_keys ob observers)
                   [K1] proxy oss)) = [(ob, K1)]"
proof -
  let ?m = "add_observer get_tracked_conf_keys ob observers"
  have s: "sorted (map fst ?m)"
    using assms(1) by (rule sorted_add_observer)
  have z: "count_list observers (K1, ob) = 0"
    using assms(2) by (force simp: count_list_0_iff)
  have c: "count_list ?m (K1, ob) = 1"
    using z assms(3,4) by (simp add: add_observer_def count_add_observer_loop count_list_distinct)
  have "fst (for_each_change ?m [K1] proxy oss) =
          map (\<lambda>r. (snd r, K1)) (filter (\<lambda>e. fst e = K1) ?m)"
    using for_each_change_calls[OF s, of "[K1]" proxy oss] by simp
  then show ?thesis
    by (simp add: filter_calls_of_observer count_list_snd_filter c)
qed

text \<open>
  Claim C2, as stated, fails. An observer that is registered twice, or whose key array
  names a key twice, has two entries for one key in the multimap, and a notification of
  that one key calls it back twice for the one pair.
\<close>

theorem for_each_change_twice_counterexample:
  "fst (for_each_change (add_observer log_keys 7 (add_observer log_keys 7 []))
          [''debug_ms''] no_value None) = [(7, ''debug_ms''), (7, ''debug_ms'')]
   \<and> fst (for_each_change (add_observer doubled_keys 7 [])
          [''debug_ms''] no_value None) = [(7, ''debug_ms''), (7, ''debug_ms'')]"
  by (simp add: add_observer_def log_keys_def doubled_keys_def no_value_def mm_equal_range_def)

text \<open>
  Claim C2, amended. The multimap is kept in key order; the empty map is, and
  \<open>add_observer\<close> and \<open>remove_observer\<close> keep it so. On such a map \<open>for_each_change\<close> calls
  back, for each changed key in turn, every entry of that key in map order: once per
  entry, not once per observer and not once per pair. \<open>add_observer\<close> appends, to the
  entries of each key, one entry for each occurrence of the key in the observer's array
  and leaves every other entry in place. So, over a change set, the pair \<open>(ob', k)\<close> is
  called back as many times as \<open>k\<close> has been registered for \<open>ob'\<close> if \<open>k\<close> is changed and
  never otherwise, whichever observer \<open>ob'\<close> is. In particular, when \<open>ob\<close> was not
  registered before and its array names the two distinct keys \<open>K1\<close> and \<open>K2\<close> once each,
  the change set \<open>{K1}\<close> calls \<open>ob\<close> back exactly once, for \<open>K1\<close>.
\<close>

theorem for_each_change_once_per_entry:
  assumes "sorted (map fst observers)"
  shows "fst (for_each_change observers changes proxy oss) =
           concat (map (\<lambda>key. map (\<lambda>e. (snd e, key)) (filter (\<lambda>e. fst e = key) observers))
                    changes)
       \<and> sorted (map fst (add_observer get_tracked_conf_keys ob observers))
       \<and> filter (\<lambda>e. fst e = key) (add_observer get_tracked_conf_keys ob observers) =
           filter (\<lambda>e. fst e = key) observers
             @ replicate (count_list (get_tracked_conf_keys ob) key) (key, ob)
       \<and> (std_set changes \<longrightarrow>
            count_list (fst (for_each_change
                (add_observer get_tracked_conf_keys ob observers) changes proxy oss)) (ob', k) =
              (if k \<in> set changes
               then count_list observers (k, ob')
                      + (if ob' = ob then count_list (get_tracked_conf_keys ob) k else 0)
               else 0))
       \<and> (K1 \<noteq> K2 \<and> ob \<notin> snd ` set observers \<and> distinct (get_tracked_conf_keys ob)
            \<and> set (get_tracked_conf_keys ob) = {K1, K2} \<longrightarrow>
            filter (\<lambda>c. fst c = ob)
              (fst (for_each_change (add_observer get_tracked_conf_keys ob observers)
                      [K1] proxy oss)) = [(ob, K1)])"
proof (intro conjI impI)
  show "fst (for_each_change observers changes proxy oss) =
           concat (map (\<lambda>key. map (\<lambda>e. (snd e, key)) (filter (\<lambda>e. fst e = key) observers))
                    changes)"
    using assms by (rule for_each_change_calls)
next
  show s: "sorted (map fst (add_observer get_tracked_conf_keys ob observers))"
    using assms by (rule sorted_add_observer)
  show "filter (\<lambda>e. fst e = key) (add_observer get_tracked_conf_keys ob observers) =
           filter (\<lambda>e. fst e = key) observers
             @ replicate (count_list (get_tracked_conf_keys ob) key) (key, ob)"
    using assms by (simp add: add_observer_def filter_add_observer_loop)
  assume "std_set changes"
  then have d: "distinct changes" by (simp add: std_set_def)
  show "count_list (fst (for_each_change
                (add_observer get_tracked_conf_keys ob observers) changes proxy oss)) (ob', k) =
              (if k \<in> set changes
               then count_list observers (k, ob')
                      + (if ob' = ob then count_list (get_tracked_conf_keys ob) k else 0)
               else 0)"
    using for_each_change_count[OF s d]
    by (simp add: add_observer_def count_add_observer_loop)
next
  assume a: "K1 \<noteq> K2 \<and> ob \<notin> snd ` set observers \<and> distinct (get_tracked_conf_keys ob)
            \<and> set (get_tracked_conf_keys ob) = {K1, K2}"
  then have "K1 \<in> set (get_tracked_conf_keys ob)" by simp
  with assms a show "filter (\<lambda>c. fst c = ob)
      (fst (for_each_change (add_observer get_tracked_conf_keys ob observers)
              [K1] proxy oss)) = [(ob, K1)]"
    by (intro for_each_change_single) simp_all
qed

theorem for_each_change_once_per_entry_witness:
  "sorted (map fst [(''debug_ms'', 4::nat)]) \<and> std_set [''debug_ms'']
   \<and> ''debug_ms'' \<noteq> ''log_file'' \<and> (7::nat) \<notin> snd ` set [(''debug_ms'', 4::nat)]
   \<and> distinct (log_keys 7) \<and> set (log_keys 7) = {''debug_ms'', ''log_file''}
   \<and> add_observer log_keys 7 [(''debug_ms'', 4)]
       = [(''debug_ms'', 4), (''debug_ms'', 7), (''log_file'', 7)]
   \<and> fst (for_each_change (add_observer log_keys 7 [(''debug_ms'', 4)])
            [''debug_ms''] no_value None) = [(4, ''debug_ms''), (7, ''debug_ms'')]
   \<and> count_list (fst (for_each_change (add_observer log_keys 7 [(''debug_ms'', 4)])
            [''debug_ms''] no_value None)) (4, ''debug_ms'') = 1
   \<and> count_list (fst (for_each_change (add_observer log_keys 7 [(''debug_ms'', 4)])
            [''debug_ms''] no_value None)) (7, ''debug_ms'') = 1
   \<and> count_list (fst (for_each_change (add_observer log_keys 7 [(''debug_ms'', 4)])
            [''debug_ms''] no_value None)) (7, ''log_file'') = 0
   \<and> filter (\<lambda>c. fst c = 7) (fst (for_each_change
          (add_observer log_keys 7 [(''debug_ms'', 4)]) [''debug_ms''] no_value None))
       = [(7, ''debug_ms'')]"
proof -
  have h: "sorted (map fst [(''debug_ms'', 4::nat)])" by simp
  note t = for_each_change_once_per_entry [OF h, where get_tracked_conf_keys=log_keys
      and ob=7 and changes="[''debug_ms'']" and proxy=no_value and oss=None
      and ?K1.0="''debug_ms''" and ?K2.0="''log_file''"]
  from t [where ob'=4 and k="''debug_ms''" and key="''debug_ms''"]
    t [where ob'=7 and k="''debug_ms''" and key="''log_file''"]
    t [where ob'=7 and k="''log_file''" and key="''debug_ms''"]
  show ?thesis
    by (simp add: std_set_def add_observer_def log_keys_def no_value_def mm_equal_range_def)
qed

section \<open>Properties of the singleton registry and of the fork notification\<close>

lemma map_find_map_of: "sorted (map fst m) \<Longrightarrow> map_find m k = map_of m k"
proof (induction m)
  case Nil then show ?case by simp
next
  case (Cons e m)
  show ?case
  proof (cases "k < fst e")
    case True
    with Cons.prems have "k \<notin> fst ` set m" by force
    then have "map_of m k = None" by (simp add: map_of_eq_None_iff)
    with True Cons show ?thesis by (cases e) auto
  next
    case False
    with Cons show ?thesis by (cases e) auto
  qed
qed

lemma map_find_Some_iff:
  "sorted (map fst m) \<Longrightarrow> distinct (map fst m) \<Longrightarrow>
   map_find m k = Some v \<longleftrightarrow> (k, v) \<in> set m"
  by (simp add: map_find_map_of)

lemma map_find_None_iff:
  "sorted (map fst m) \<Longrightarrow> map_find m k = None \<longleftrightarrow> k \<notin> fst ` set m"
  by (simp add: map_find_map_of map_of_eq_None_iff)

lemma set_map_emplace:
  "sorted (map fst m) \<Longrightarrow>
   set (map_emplace k v m) = (if k \<in> fst ` set m then set m else insert (k, v) (set m))"
proof (induction m)
  case Nil then show ?case by simp
next
  case (Cons e m)
  show ?case
  proof (cases "k < fst e")
    case True
    with Cons.prems have "k \<notin> fst ` set (e # m)" by force
    with True show ?thesis by simp
  next
    case False
    show ?thesis
    proof (cases "fst e < k")
      case True
      with Cons show ?thesis by auto
    next
      case False
      with \<open>\<not> k < fst e\<close> have "fst e = k" by simp
      then show ?thesis by auto
    qed
  qed
qed

lemma sorted_map_emplace:
  "sorted (map fst m) \<Longrightarrow> sorted (map fst (map_emplace k v m))"
  by (induction m) (auto simp: set_map_emplace split: if_splits)

lemma distinct_map_emplace:
  "sorted (map fst m) \<Longrightarrow> distinct (map fst m) \<Longrightarrow> distinct (map fst (map_emplace k v m))"
  by (induction m) (auto simp: set_map_emplace split: if_splits)

lemma erase_dropped_filter:
  "erase_dropped D m = filter (\<lambda>e. fst (fst e) \<notin> D) m"
  by (induction m) auto

lemma sorted_erase_dropped:
  "sorted (map fst m) \<Longrightarrow> sorted (map fst (erase_dropped D m))"
  by (induction m) (auto simp: erase_dropped_filter)

lemma distinct_erase_dropped:
  "distinct (map fst m) \<Longrightarrow> distinct (map fst (erase_dropped D m))"
  by (simp add: erase_dropped_filter distinct_map_filter)


lemma registry_ok_find:
  "registry_ok c \<Longrightarrow>
   map_find (associated_objs c) k = Some v \<longleftrightarrow> (k, v) \<in> set (associated_objs c)"
  by (simp add: registry_ok_def map_find_Some_iff)

lemma registry_ok_find_None:
  "registry_ok c \<Longrightarrow>
   map_find (associated_objs c) k = None \<longleftrightarrow> k \<notin> fst ` set (associated_objs c)"
  by (simp add: registry_ok_def map_find_None_iff)

lemma lookup_found:
  assumes "registry_ok c" and "map_find (associated_objs c) (n, T) = Some obj"
  shows "lookup_or_create_singleton_object T n d a c = Inr (obj, c)"
proof -
  from assms have "((n, T), obj) \<in> set (associated_objs c)"
    by (simp add: registry_ok_find)
  with assms(1) have "held_type obj = T" by (force simp: registry_ok_def)
  with assms(2) show ?thesis by (simp add: lookup_or_create_singleton_object_def)
qed

lemma lookup_absent:
  assumes "map_find (associated_objs c) (n, T) = None"
  shows "lookup_or_create_singleton_object T n d a c = Inr (new_slot T a c, with_slot T n d a c)"
  using assms
  by (simp add: lookup_or_create_singleton_object_def Let_def new_slot_def with_slot_def)

lemma extends_refl: "registry_ok c \<Longrightarrow> extends c c"
  by (simp add: extends_def)

lemma extends_trans:
  assumes "extends a b" and "extends b c"
  shows "extends a c"
proof -
  from assms(1) obtain e1 where e1: "constructions b = constructions a @ e1"
    "set e1 \<inter> fst ` set (associated_objs a) = {}" by (auto simp: extends_def)
  from assms(2) obtain e2 where e2: "constructions c = constructions b @ e2"
    "set e2 \<inter> fst ` set (associated_objs b) = {}" by (auto simp: extends_def)
  from assms(1) have sub: "set (associated_objs a) \<subseteq> set (associated_objs b)"
    by (simp add: extends_def)
  from e2(2) sub have "set e2 \<inter> fst ` set (associated_objs a) = {}" by blast
  with e1 e2 have "constructions c = constructions a @ (e1 @ e2)
      \<and> set (e1 @ e2) \<inter> fst ` set (associated_objs a) = {}" by auto
  then have "\<exists>ext. constructions c = constructions a @ ext
      \<and> set ext \<inter> fst ` set (associated_objs a) = {}" by blast
  with assms show ?thesis by (auto simp: extends_def)
qed

lemma create_extends:
  assumes ok: "registry_ok c" and none: "map_find (associated_objs c) (n, T) = None"
  shows "extends c (with_slot T n d a c)"
proof -
  from ok have so: "sorted (map fst (associated_objs c))"
    and di: "distinct (map fst (associated_objs c))" by (simp_all add: registry_ok_def)
  from ok none have notin: "(n, T) \<notin> fst ` set (associated_objs c)"
    by (simp add: registry_ok_find_None)
  have st: "set (map_emplace (n, T) (new_slot T a c) (associated_objs c)) =
            insert ((n, T), new_slot T a c) (set (associated_objs c))"
    using so notin by (simp add: set_map_emplace)
  have ns: "held_type (new_slot T a c) = T" "instance_id (new_slot T a c) = length (constructions c)"
    by (simp_all add: new_slot_def)
  show ?thesis
    unfolding extends_def registry_ok_def with_slot_def
    using ok so di notin
    by (auto simp: st ns sorted_map_emplace distinct_map_emplace registry_ok_def less_Suc_eq)
qed

lemma find_with_slot:
  assumes ok: "registry_ok c" and none: "map_find (associated_objs c) (n, T) = None"
  shows "map_find (associated_objs (with_slot T n d a c)) (n, T) = Some (new_slot T a c)"
proof -
  from ok have so: "sorted (map fst (associated_objs c))" by (simp add: registry_ok_def)
  from ok none have notin: "(n, T) \<notin> fst ` set (associated_objs c)"
    by (simp add: registry_ok_find_None)
  have "((n, T), new_slot T a c) \<in> set (associated_objs (with_slot T n d a c))"
    using so notin by (simp add: with_slot_def set_map_emplace)
  moreover have "registry_ok (with_slot T n d a c)"
    using create_extends[OF ok none] by (simp add: extends_def)
  ultimately show ?thesis by (simp add: registry_ok_find)
qed

lemma lookup_extends:
  assumes "registry_ok c" and "lookup_or_create_singleton_object T n d a c = Inr (obj, c')"
  shows "extends c c'"
proof (cases "map_find (associated_objs c) (n, T)")
  case None
  from assms(2) have "c' = with_slot T n d a c" by (simp add: lookup_absent[OF None])
  with create_extends[OF assms(1) None] show ?thesis by simp
next
  case (Some v)
  from assms(2) have "c' = c" by (simp add: lookup_found[OF assms(1) Some])
  with assms(1) show ?thesis by (simp add: extends_refl)
qed

lemma lookup_total:
  assumes "registry_ok c"
  shows "\<exists>obj c'. lookup_or_create_singleton_object T n d a c = Inr (obj, c')
           \<and> map_find (associated_objs c') (n, T) = Some obj \<and> held_type obj = T"
proof (cases "map_find (associated_objs c) (n, T)")
  case None
  have "held_type (new_slot T a c) = T" by (simp add: new_slot_def)
  with lookup_absent[OF None] find_with_slot[OF assms None] show ?thesis by simp
next
  case (Some v)
  from Some assms have "((n, T), v) \<in> set (associated_objs c)" by (simp add: registry_ok_find)
  with assms have "held_type v = T" by (force simp: registry_ok_def)
  with lookup_found[OF assms Some] Some show ?thesis by simp
qed

lemma run_lookups_extends:
  "registry_ok c \<Longrightarrow> extends c (run_lookups reqs c)"
proof (induction reqs arbitrary: c)
  case Nil then show ?case by (simp add: extends_refl)
next
  case (Cons r reqs)
  obtain T n d a where r: "r = (T, n, d, a)" by (cases r) auto
  from lookup_total[OF Cons.prems, where T=T and n=n and d=d and a=a] obtain obj c' where
    l: "lookup_or_create_singleton_object T n d a c = Inr (obj, c')" by blast
  from lookup_extends[OF Cons.prems l] have e: "extends c c'" .
  then have "registry_ok c'" by (simp add: extends_def)
  from Cons.IH[OF this] e have "extends c (run_lookups reqs c')" by (rule extends_trans[rotated])
  with r l show ?case by simp
qed

lemma run_lookups_fork_calls [simp]: "fork_calls (run_lookups reqs c) = fork_calls c"
proof (induction reqs arbitrary: c)
  case Nil then show ?case by simp
next
  case (Cons r reqs)
  obtain T n d a where r: "r = (T, n, d, a)" by (cases r) auto
  have "\<And>obj c'. lookup_or_create_singleton_object T n d a c = Inr (obj, c')
          \<Longrightarrow> fork_calls c' = fork_calls c"
    by (auto simp: lookup_or_create_singleton_object_def Let_def
        split: option.splits if_splits)
  with Cons r show ?case by (auto split: sum.splits)
qed

lemma extends_fork_calls_update:
  "registry_ok c \<Longrightarrow> extends c (c\<lparr>fork_calls := x\<rparr>)"
  by (simp add: extends_def registry_ok_def)

lemma pre_fork_loop_extends:
  assumes "hooks_use_lookups h"
  shows "registry_ok c \<Longrightarrow> extends c (pre_fork_loop h ws c)"
proof (induction ws arbitrary: c)
  case Nil then show ?case by (simp add: extends_refl)
next
  case (Cons t ts)
  let ?c1 = "c\<lparr>fork_calls := fork_calls c @ [HandlePreFork t]\<rparr>"
  from Cons.prems have e1: "extends c ?c1" by (rule extends_fork_calls_update)
  then have ok1: "registry_ok ?c1" by (simp add: extends_def)
  from assms obtain reqs where h: "h t ?c1 = run_lookups reqs ?c1"
    unfolding hooks_use_lookups_def by blast
  from run_lookups_extends[OF ok1, of reqs] h have e2: "extends ?c1 (h t ?c1)" by simp
  then have ok2: "registry_ok (h t ?c1)" by (simp add: extends_def)
  from Cons.IH[OF ok2] have e3: "extends (h t ?c1) (pre_fork_loop h ts (h t ?c1))" .
  from extends_trans[OF extends_trans[OF e1 e2] e3] show ?case by simp
qed

lemma pre_fork_loop_calls:
  assumes "hooks_use_lookups h"
  shows "fork_calls (pre_fork_loop h ws c) = fork_calls c @ map HandlePreFork ws"
proof (induction ws arbitrary: c)
  case Nil then show ?case by simp
next
  case (Cons t ts)
  let ?c1 = "c\<lparr>fork_calls := fork_calls c @ [HandlePreFork t]\<rparr>"
  from assms obtain reqs where h: "h t ?c1 = run_lookups reqs ?c1"
    unfolding hooks_use_lookups_def by blast
  then have "fork_calls (h t ?c1) = fork_calls c @ [HandlePreFork t]" by simp
  with Cons.IH[of "h t ?c1"] show ?case by simp
qed


lemma map_find_erase_dropped:
  assumes "sorted (map fst m)" and "distinct (map fst m)"
  shows "map_find (erase_dropped D m) k = (if fst k \<in> D then None else map_find m k)"
proof -
  have s: "sorted (map fst (erase_dropped D m))" using assms(1) by (rule sorted_erase_dropped)
  have d: "distinct (map fst (erase_dropped D m))" using assms(2) by (rule distinct_erase_dropped)
  show ?thesis
  proof (cases "map_find m k")
    case None
    then have "k \<notin> fst ` set m" using assms(1) by (simp add: map_find_None_iff)
    then have "k \<notin> fst ` set (erase_dropped D m)" by (auto simp: erase_dropped_filter)
    then show ?thesis using s None by (simp add: map_find_None_iff)
  next
    case (Some v)
    then have in_m: "(k, v) \<in> set m" using assms by (simp add: map_find_Some_iff)
    show ?thesis
    proof (cases "fst k \<in> D")
      case True
      then have "k \<notin> fst ` set (erase_dropped D m)" by (auto simp: erase_dropped_filter)
      then show ?thesis using s True by (simp add: map_find_None_iff)
    next
      case False
      with in_m have "(k, v) \<in> set (erase_dropped D m)" by (simp add: erase_dropped_filter)
      then show ?thesis using s d False Some by (simp add: map_find_Some_iff)
    qed
  qed
qed

lemma notify_pre_fork_props:
  assumes hooks: "hooks_use_lookups h" and ok: "registry_ok c"
  shows "registry_ok (notify_pre_fork h c)"
    and "fork_calls (notify_pre_fork h c) = fork_calls c @ map HandlePreFork (fork_watchers c)"
    and "associated_objs_drop_on_fork (notify_pre_fork h c) = {}"
    and "associated_objs (notify_pre_fork h c) =
           filter (\<lambda>e. fst (fst e) \<notin>
                         associated_objs_drop_on_fork (pre_fork_loop h (fork_watchers c) c))
             (associated_objs (pre_fork_loop h (fork_watchers c) c))"
    and "n \<in> associated_objs_drop_on_fork c \<Longrightarrow>
           map_find (associated_objs (notify_pre_fork h c)) (n, U) = None"
    and "length (constructions c) \<le> length (constructions (notify_pre_fork h c))"
    and "fork_watchers (notify_pre_fork h c) = fork_watchers c"
proof -
  let ?c1 = "pre_fork_loop h (fork_watchers c) c"
  have e: "extends c ?c1" using hooks ok by (rule pre_fork_loop_extends)
  then have ok1: "registry_ok ?c1" by (simp add: extends_def)
  then have so: "sorted (map fst (associated_objs ?c1))"
    and di: "distinct (map fst (associated_objs ?c1))" by (simp_all add: registry_ok_def)
  have "set (erase_dropped (associated_objs_drop_on_fork ?c1) (associated_objs ?c1))
          \<subseteq> set (associated_objs ?c1)" by (auto simp: erase_dropped_filter)
  then show "registry_ok (notify_pre_fork h c)"
    using ok1 sorted_erase_dropped[OF so] distinct_erase_dropped[OF di]
    by (auto simp: notify_pre_fork_def Let_def registry_ok_def)
  show "fork_calls (notify_pre_fork h c) = fork_calls c @ map HandlePreFork (fork_watchers c)"
    using pre_fork_loop_calls[OF hooks] by (simp add: notify_pre_fork_def Let_def)
  show "associated_objs_drop_on_fork (notify_pre_fork h c) = {}"
    by (simp add: notify_pre_fork_def Let_def)
  show "associated_objs (notify_pre_fork h c) =
           filter (\<lambda>e. fst (fst e) \<notin> associated_objs_drop_on_fork ?c1) (associated_objs ?c1)"
    by (simp add: notify_pre_fork_def Let_def erase_dropped_filter)
  show "length (constructions c) \<le> length (constructions (notify_pre_fork h c))"
    using e by (auto simp: notify_pre_fork_def Let_def extends_def)
  show "fork_watchers (notify_pre_fork h c) = fork_watchers c"
    using e by (simp add: notify_pre_fork_def Let_def extends_def)
  show "map_find (associated_objs (notify_pre_fork h c)) (n, U) = None"
    if "n \<in> associated_objs_drop_on_fork c"
  proof -
    from that e have "n \<in> associated_objs_drop_on_fork ?c1" by (auto simp: extends_def)
    then show ?thesis
      using so di by (simp add: notify_pre_fork_def Let_def map_find_erase_dropped)
  qed
qed

lemma created_in_dropset:
  assumes "map_find (associated_objs c) (n, T) = None"
      and "lookup_or_create_singleton_object T n True a c = Inr (obj, c')"
  shows "n \<in> associated_objs_drop_on_fork c'" and "obj = new_slot T a c"
    and "constructions c' = constructions c @ [(n, T)]"
  using assms by (auto simp: lookup_absent with_slot_def)

lemma extends_keeps_slot:
  assumes "extends c c'" and "map_find (associated_objs c) k = Some v" and "registry_ok c"
  shows "map_find (associated_objs c') k = Some v"
proof -
  from assms(2,3) have "(k, v) \<in> set (associated_objs c)" by (simp add: registry_ok_find)
  with assms(1) have "(k, v) \<in> set (associated_objs c')" by (auto simp: extends_def)
  moreover from assms(1) have "registry_ok c'" by (simp add: extends_def)
  ultimately show ?thesis by (simp add: registry_ok_find)
qed

lemma extends_keeps_count:
  assumes "extends c c'" and "map_find (associated_objs c) k = Some v" and "registry_ok c"
  shows "count_list (constructions c') k = count_list (constructions c) k"
proof -
  from assms(2,3) have "k \<in> fst ` set (associated_objs c)"
    by (force simp: registry_ok_find)
  moreover from assms(1) obtain ext where "constructions c' = constructions c @ ext"
    "set ext \<inter> fst ` set (associated_objs c) = {}" by (auto simp: extends_def)
  ultimately show ?thesis by (auto simp: count_list_0_iff)
qed


lemma registry_ok_new: "registry_ok new_CephContext"
  by (simp add: registry_ok_def new_CephContext_def)

text \<open>
  Claim C1, as stated, fails. In a new context the singleton \<open>''x''\<close> is created with type 1;
  the later lookup of \<open>''x''\<close> with type 2 returns normally, with a second slot under the key
  \<open>(''x'', 2)\<close> beside the first.
\<close>

theorem lookup_other_type_counterexample:
  "lookup_or_create_singleton_object 1 ''x'' False (10::nat) new_CephContext =
     Inr (\<lparr>held_type = 1, instance_id = 0, held_value = 10\<rparr>,
          \<lparr>associated_objs = [((''x'', 1), \<lparr>held_type = 1, instance_id = 0, held_value = 10\<rparr>)],
           associated_objs_drop_on_fork = {}, fork_watchers = [],
           constructions = [(''x'', 1)], fork_calls = []\<rparr>)
   \<and> lookup_or_create_singleton_object 2 ''x'' False (20::nat)
         \<lparr>associated_objs = [((''x'', 1), \<lparr>held_type = 1, instance_id = 0, held_value = 10\<rparr>)],
          associated_objs_drop_on_fork = {}, fork_watchers = [],
          constructions = [(''x'', 1)], fork_calls = []\<rparr> =
     Inr (\<lparr>held_type = 2, instance_id = 1, held_value = 20\<rparr>,
          \<lparr>associated_objs = [((''x'', 1), \<lparr>held_type = 1, instance_id = 0, held_value = 10\<rparr>),
                              ((''x'', 2), \<lparr>held_type = 2, instance_id = 1, held_value = 20\<rparr>)],
           associated_objs_drop_on_fork = {}, fork_watchers = [],
           constructions = [(''x'', 1), (''x'', 2)], fork_calls = []\<rparr>)"
  by (simp add: lookup_or_create_singleton_object_def new_CephContext_def Let_def)

text \<open>
  Claim C1, amended. When a slot exists under \<open>(name, T)\<close>, a lookup of the same name with
  another type \<open>U\<close> is no fault: it returns the slot keyed \<open>(name, U)\<close>, which holds type \<open>U\<close>
  and is newly constructed if there was none, and the slot under \<open>(name, T)\<close> stays as it
  was.
\<close>

theorem lookup_other_type_separate_slot:
  assumes "registry_ok cct"
      and "map_find (associated_objs cct) (name, T) = Some objT"
      and "U \<noteq> T"
  shows "\<exists>objU cct'. lookup_or_create_singleton_object U name drop_on_fork args cct = Inr (objU, cct')
           \<and> held_type objU = U
           \<and> map_find (associated_objs cct') (name, U) = Some objU
           \<and> map_find (associated_objs cct') (name, T) = Some objT
           \<and> (map_find (associated_objs cct) (name, U) = None \<longrightarrow>
                instance_id objU = length (constructions cct)
                \<and> constructions cct' = constructions cct @ [(name, U)])"
proof -
  from lookup_total[OF assms(1), where T=U and n=name and d=drop_on_fork and a=args]
  obtain objU cct' where
    l: "lookup_or_create_singleton_object U name drop_on_fork args cct = Inr (objU, cct')"
    and f: "map_find (associated_objs cct') (name, U) = Some objU" and t: "held_type objU = U"
    by blast
  from lookup_extends[OF assms(1) l] have "extends cct cct'" .
  from extends_keeps_slot[OF this assms(2) assms(1)]
  have k: "map_find (associated_objs cct') (name, T) = Some objT" .
  have n: "instance_id objU = length (constructions cct)
        \<and> constructions cct' = constructions cct @ [(name, U)]"
    if "map_find (associated_objs cct) (name, U) = None"
    using l by (auto simp: lookup_absent[OF that] new_slot_def with_slot_def)
  show ?thesis
    using l f t k n by (intro exI[of _ objU] exI[of _ cct']) simp
qed

theorem lookup_other_type_separate_slot_witness:
  "registry_ok \<lparr>associated_objs = [((''x'', 1), \<lparr>held_type = 1, instance_id = 0, held_value = 10::nat\<rparr>)],
          associated_objs_drop_on_fork = {}, fork_watchers = [],
          constructions = [(''x'', 1)], fork_calls = []\<rparr>
   \<and> (2::nat) \<noteq> 1
   \<and> (\<exists>objU cct'. lookup_or_create_singleton_object 2 ''x'' True (20::nat)
          \<lparr>associated_objs = [((''x'', 1), \<lparr>held_type = 1, instance_id = 0, held_value = 10\<rparr>)],
            associated_objs_drop_on_fork = {}, fork_watchers = [],
            constructions = [(''x'', 1)], fork_calls = []\<rparr> = Inr (objU, cct')
        \<and> held_type objU = 2 \<and> instance_id objU = 1
        \<and> map_find (associated_objs cct') (''x'', 1)
             = Some \<lparr>held_type = 1, instance_id = 0, held_value = 10\<rparr>)"
  using lookup_other_type_separate_slot [of
      "\<lparr>associated_objs = [((''x'', 1), \<lparr>held_type = 1, instance_id = 0, held_value = 10::nat\<rparr>)],
          associated_objs_drop_on_fork = {}, fork_watchers = [],
          constructions = [(''x'', 1)], fork_calls = []\<rparr>"
      "''x''" 1 "\<lparr>held_type = 1, instance_id = 0, held_value = 10\<rparr>" 2 True 20]
  by (auto simp: registry_ok_def)


lemma lookup_after_fork_fresh:
  assumes hooks: "hooks_use_lookups h" and ok: "registry_ok c"
      and dropped: "n \<in> associated_objs_drop_on_fork c"
      and old: "instance_id obj < length (constructions c)"
  shows "\<exists>obj' c'. lookup_or_create_singleton_object T n d a (notify_pre_fork h c) = Inr (obj', c')
           \<and> instance_id obj' \<noteq> instance_id obj
           \<and> constructions c' = constructions (notify_pre_fork h c) @ [(n, T)]
           \<and> registry_ok c'"
proof -
  let ?c3 = "notify_pre_fork h c"
  have none: "map_find (associated_objs ?c3) (n, T) = None"
    using notify_pre_fork_props(5)[OF hooks ok dropped] .
  have ok3: "registry_ok ?c3" using notify_pre_fork_props(1)[OF hooks ok] .
  have len: "length (constructions c) \<le> length (constructions ?c3)"
    using notify_pre_fork_props(6)[OF hooks ok] .
  have l: "lookup_or_create_singleton_object T n d a ?c3 = Inr (new_slot T a ?c3, with_slot T n d a ?c3)"
    using none by (rule lookup_absent)
  have "registry_ok (with_slot T n d a ?c3)"
    using create_extends[OF ok3 none] by (simp add: extends_def)
  moreover have "instance_id (new_slot T a ?c3) \<noteq> instance_id obj"
    using old len by (simp add: new_slot_def)
  moreover have "constructions (with_slot T n d a ?c3) = constructions ?c3 @ [(n, T)]"
    by (simp add: with_slot_def)
  ultimately show ?thesis using l by simp
qed

lemma hooks_use_lookups_idle: "hooks_use_lookups idle_hook"
  unfolding hooks_use_lookups_def idle_hook_def
proof (intro allI)
  fix w :: fork_watcher and cct :: "'a CephContext"
  have "cct = run_lookups [] cct" by simp
  then show "\<exists>reqs. cct = run_lookups reqs cct" by blast
qed

lemma notify_pre_fork_keeps_unmarked:
  assumes hooks: "hooks_use_lookups h" and ok: "registry_ok c"
      and slot: "map_find (associated_objs c) k = Some v"
      and unmarked: "fst k \<notin> associated_objs_drop_on_fork (pre_fork_loop h (fork_watchers c) c)"
  shows "map_find (associated_objs (notify_pre_fork h c)) k = Some v"
    and "count_list (constructions (notify_pre_fork h c)) k = count_list (constructions c) k"
proof -
  let ?c1 = "pre_fork_loop h (fork_watchers c) c"
  have e: "extends c ?c1" using hooks ok by (rule pre_fork_loop_extends)
  then have ok1: "registry_ok ?c1" by (simp add: extends_def)
  then have so: "sorted (map fst (associated_objs ?c1))"
    and di: "distinct (map fst (associated_objs ?c1))" by (simp_all add: registry_ok_def)
  have s1: "map_find (associated_objs ?c1) k = Some v"
    using extends_keeps_slot[OF e slot ok] .
  show "map_find (associated_objs (notify_pre_fork h c)) k = Some v"
    using so di s1 unmarked by (simp add: notify_pre_fork_def Let_def map_find_erase_dropped)
  have "constructions (notify_pre_fork h c) = constructions ?c1"
    by (simp add: notify_pre_fork_def Let_def)
  with extends_keeps_count[OF e slot ok]
  show "count_list (constructions (notify_pre_fork h c)) k = count_list (constructions c) k"
    by simp
qed

text \<open>
  Claim C4. In a context that satisfies the invariant, a lookup of \<open>(name, T)\<close> returns a slot,
  constructing it if and only if the key had none. After any further lookups a second
  lookup of the key returns the same slot and constructs nothing, the number of
  constructions recorded for the key is unchanged, and no key has two slots. The same
  holds after a \<open>notify_pre_fork\<close> at which the name is not in the drop set. If the name is
  in the drop set when \<open>notify_pre_fork\<close> runs, the next lookup of the key constructs a new
  instance, of another identity.
\<close>

theorem singleton_constructed_once:
  assumes ok: "registry_ok cct"
  shows "\<exists>obj cct1.
           lookup_or_create_singleton_object T name drop_on_fork args cct = Inr (obj, cct1)
         \<and> (map_find (associated_objs cct) (name, T) = None \<longrightarrow>
              constructions cct1 = constructions cct @ [(name, T)])
         \<and> (map_find (associated_objs cct) (name, T) \<noteq> None \<longrightarrow> cct1 = cct)
         \<and> lookup_or_create_singleton_object T name drop_on_fork' args' (run_lookups reqs cct1)
              = Inr (obj, run_lookups reqs cct1)
         \<and> count_list (constructions (run_lookups reqs cct1)) (name, T)
              = count_list (constructions cct1) (name, T)
         \<and> distinct (map fst (associated_objs (run_lookups reqs cct1)))
         \<and> (hooks_use_lookups handle_pre_fork
              \<and> name \<notin> associated_objs_drop_on_fork
                   (pre_fork_loop handle_pre_fork (fork_watchers (run_lookups reqs cct1))
                      (run_lookups reqs cct1)) \<longrightarrow>
              lookup_or_create_singleton_object T name drop_on_fork' args'
                  (notify_pre_fork handle_pre_fork (run_lookups reqs cct1))
                = Inr (obj, notify_pre_fork handle_pre_fork (run_lookups reqs cct1))
              \<and> count_list (constructions
                    (notify_pre_fork handle_pre_fork (run_lookups reqs cct1))) (name, T)
                  = count_list (constructions cct1) (name, T))
         \<and> (hooks_use_lookups handle_pre_fork
              \<and> name \<in> associated_objs_drop_on_fork (run_lookups reqs cct1) \<longrightarrow>
              (\<exists>obj' cct4.
                 lookup_or_create_singleton_object T name drop_on_fork' args'
                   (notify_pre_fork handle_pre_fork (run_lookups reqs cct1)) = Inr (obj', cct4)
               \<and> instance_id obj' \<noteq> instance_id obj
               \<and> constructions cct4 =
                   constructions (notify_pre_fork handle_pre_fork (run_lookups reqs cct1))
                     @ [(name, T)]
               \<and> distinct (map fst (associated_objs cct4))))"
proof -
  from lookup_total[OF ok, where T=T and n=name and d=drop_on_fork and a=args]
  obtain obj cct1 where
    l: "lookup_or_create_singleton_object T name drop_on_fork args cct = Inr (obj, cct1)"
    and f: "map_find (associated_objs cct1) (name, T) = Some obj"
    by blast
  let ?c2 = "run_lookups reqs cct1"
  let ?c3 = "notify_pre_fork handle_pre_fork ?c2"
  from lookup_extends[OF ok l] have ok1: "registry_ok cct1" by (simp add: extends_def)
  have e12: "extends cct1 ?c2" using ok1 by (rule run_lookups_extends)
  then have ok2: "registry_ok ?c2" by (simp add: extends_def)
  have f2: "map_find (associated_objs ?c2) (name, T) = Some obj"
    using extends_keeps_slot[OF e12 f ok1] .
  have a: "map_find (associated_objs cct) (name, T) = None \<longrightarrow>
              constructions cct1 = constructions cct @ [(name, T)]"
    using l by (auto simp: lookup_absent with_slot_def)
  have b: "map_find (associated_objs cct) (name, T) \<noteq> None \<longrightarrow> cct1 = cct"
    using l ok by (auto simp: lookup_found)
  have c: "lookup_or_create_singleton_object T name drop_on_fork' args' ?c2 = Inr (obj, ?c2)"
    using ok2 f2 by (rule lookup_found)
  have d: "count_list (constructions ?c2) (name, T) = count_list (constructions cct1) (name, T)"
    using extends_keeps_count[OF e12 f ok1] .
  have e: "distinct (map fst (associated_objs ?c2))" using ok2 by (simp add: registry_ok_def)
  have idlt: "instance_id obj < length (constructions ?c2)"
  proof -
    from f2 ok2 have "((name, T), obj) \<in> set (associated_objs ?c2)"
      by (simp add: registry_ok_find)
    with ok2 show ?thesis by (force simp: registry_ok_def)
  qed
  have k: "hooks_use_lookups handle_pre_fork
              \<and> name \<notin> associated_objs_drop_on_fork
                   (pre_fork_loop handle_pre_fork (fork_watchers ?c2) ?c2) \<longrightarrow>
              lookup_or_create_singleton_object T name drop_on_fork' args' ?c3 = Inr (obj, ?c3)
              \<and> count_list (constructions ?c3) (name, T)
                  = count_list (constructions cct1) (name, T)"
  proof (intro impI, elim conjE)
    assume h: "hooks_use_lookups handle_pre_fork"
      and un: "name \<notin> associated_objs_drop_on_fork
                   (pre_fork_loop handle_pre_fork (fork_watchers ?c2) ?c2)"
    from un have un': "fst (name, T) \<notin> associated_objs_drop_on_fork
                   (pre_fork_loop handle_pre_fork (fork_watchers ?c2) ?c2)" by simp
    note keep = notify_pre_fork_keeps_unmarked[OF h ok2 f2 un']
    have ok3: "registry_ok ?c3" using notify_pre_fork_props(1)[OF h ok2] .
    from lookup_found[OF ok3 keep(1)] keep(2) d
    show "lookup_or_create_singleton_object T name drop_on_fork' args' ?c3 = Inr (obj, ?c3)
              \<and> count_list (constructions ?c3) (name, T)
                  = count_list (constructions cct1) (name, T)" by simp
  qed
  have g: "hooks_use_lookups handle_pre_fork
              \<and> name \<in> associated_objs_drop_on_fork ?c2 \<longrightarrow>
              (\<exists>obj' cct4.
                 lookup_or_create_singleton_object T name drop_on_fork' args' ?c3 = Inr (obj', cct4)
               \<and> instance_id obj' \<noteq> instance_id obj
               \<and> constructions cct4 = constructions ?c3 @ [(name, T)]
               \<and> distinct (map fst (associated_objs cct4)))"
  proof (intro impI, elim conjE)
    assume h: "hooks_use_lookups handle_pre_fork"
      and dr: "name \<in> associated_objs_drop_on_fork ?c2"
    from lookup_after_fork_fresh[OF h ok2 dr idlt, where T=T and d=drop_on_fork' and a=args']
    show "\<exists>obj' cct4.
                 lookup_or_create_singleton_object T name drop_on_fork' args' ?c3 = Inr (obj', cct4)
               \<and> instance_id obj' \<noteq> instance_id obj
               \<and> constructions cct4 = constructions ?c3 @ [(name, T)]
               \<and> distinct (map fst (associated_objs cct4))"
      by (auto simp: registry_ok_def)
  qed
  show ?thesis
    using l a b c d e k g by (intro exI[of _ obj] exI[of _ cct1]) simp
qed


theorem singleton_constructed_once_witness:
  "registry_ok (new_CephContext :: nat CephContext)
   \<and> hooks_use_lookups (idle_hook :: fork_watcher \<Rightarrow> nat CephContext \<Rightarrow> nat CephContext)
   \<and> (\<exists>obj cct1.
        lookup_or_create_singleton_object 1 ''x'' True (5::nat) new_CephContext = Inr (obj, cct1)
      \<and> constructions cct1 = [(''x'', 1)]
      \<and> ''x'' \<in> associated_objs_drop_on_fork (run_lookups [(2, ''y'', False, 7)] cct1)
      \<and> lookup_or_create_singleton_object 1 ''x'' False 6 (run_lookups [(2, ''y'', False, 7)] cct1)
           = Inr (obj, run_lookups [(2, ''y'', False, 7)] cct1)
      \<and> count_list (constructions (run_lookups [(2, ''y'', False, 7)] cct1)) (''x'', 1) = 1
      \<and> (\<exists>obj' cct4.
            lookup_or_create_singleton_object 1 ''x'' False 6
              (notify_pre_fork idle_hook (run_lookups [(2, ''y'', False, 7)] cct1))
              = Inr (obj', cct4)
          \<and> instance_id obj' \<noteq> instance_id obj))
   \<and> (\<exists>obj cct1.
        lookup_or_create_singleton_object 1 ''x'' False (5::nat) new_CephContext = Inr (obj, cct1)
      \<and> ''x'' \<notin> associated_objs_drop_on_fork
           (pre_fork_loop idle_hook (fork_watchers (run_lookups [(2, ''y'', True, 7)] cct1))
              (run_lookups [(2, ''y'', True, 7)] cct1))
      \<and> lookup_or_create_singleton_object 1 ''x'' False 6
              (notify_pre_fork idle_hook (run_lookups [(2, ''y'', True, 7)] cct1))
           = Inr (obj, notify_pre_fork idle_hook (run_lookups [(2, ''y'', True, 7)] cct1))
      \<and> count_list (constructions
             (notify_pre_fork idle_hook (run_lookups [(2, ''y'', True, 7)] cct1))) (''x'', 1) = 1)"
proof -
  have h1: "hooks_use_lookups (idle_hook :: fork_watcher \<Rightarrow> nat CephContext \<Rightarrow> nat CephContext)"
    by (rule hooks_use_lookups_idle)
  have h2: "registry_ok (new_CephContext :: nat CephContext)" by (rule registry_ok_new)
  from singleton_constructed_once[OF h2, where T=1 and name="''x''" and drop_on_fork=True
      and args=5 and drop_on_fork'=False and args'=6 and reqs="[(2, ''y'', False, 7)]"
      and handle_pre_fork=idle_hook]
    singleton_constructed_once[OF h2, where T=1 and name="''x''" and drop_on_fork=False
      and args=5 and drop_on_fork'=False and args'=6 and reqs="[(2, ''y'', True, 7)]"
      and handle_pre_fork=idle_hook]
  show ?thesis using h1 h2
    by (simp add: lookup_or_create_singleton_object_def Let_def notify_pre_fork_def
        new_CephContext_def)
qed


lemma hooks_use_lookups_const: "hooks_use_lookups (\<lambda>w. run_lookups reqs)"
  unfolding hooks_use_lookups_def by blast







lemma lookup_placed_cct:
  "lookup_placed allocate T n d a p =
     (case lookup_or_create_singleton_object T n d a (placed_cct p) of
        Inl e \<Rightarrow> Inl e
      | Inr (obj, c') \<Rightarrow>
          Inr (obj, \<lparr>placed_cct = c',
                     node_address = (if map_find (associated_objs (placed_cct p)) (n, T) = None
                        then ((n, T), allocate (map snd (node_address p))) # node_address p
                        else node_address p)\<rparr>))"
  by (simp add: lookup_placed_def)

lemma run_lookups_placed_cct:
  "placed_cct (run_lookups_placed allocate reqs p) = run_lookups reqs (placed_cct p)"
proof (induction reqs arbitrary: p)
  case Nil then show ?case by simp
next
  case (Cons r reqs)
  obtain T n d a where r: "r = (T, n, d, a)" by (cases r) auto
  show ?case
    by (cases "lookup_or_create_singleton_object T n d a (placed_cct p)")
       (auto simp: r lookup_placed_def Cons.IH)
qed

lemma pre_fork_loop_placed_cct:
  "placed_cct (pre_fork_loop_placed allocate script ws p) =
     pre_fork_loop (\<lambda>w. run_lookups (script w)) ws (placed_cct p)"
  by (induction ws arbitrary: p) (simp_all add: run_lookups_placed_cct)

lemma notify_pre_fork_placed_cct:
  "placed_cct (notify_pre_fork_placed allocate script p) =
     notify_pre_fork (\<lambda>w. run_lookups (script w)) (placed_cct p)"
  by (simp add: notify_pre_fork_placed_def notify_pre_fork_def Let_def pre_fork_loop_placed_cct)





text \<open>
  Claim C10, as stated, fails. The singleton \<open>''x''\<close> of type 1 is created with
  \<open>drop_on_fork = true\<close>; \<open>notify_pre_fork\<close> removes it and clears the drop set; \<open>''x''\<close> of
  type 2 is then created with \<open>drop_on_fork = false\<close>; the second \<open>notify_pre_fork\<close> leaves
  that slot in place, although a slot of this name was once created with
  \<open>drop_on_fork = true\<close>.
\<close>

theorem drop_on_fork_ever_counterexample:
  "lookup_or_create_singleton_object 1 ''x'' True (5::nat) new_CephContext
     = Inr (\<lparr>held_type = 1, instance_id = 0, held_value = 5\<rparr>,
            \<lparr>associated_objs = [((''x'', 1), \<lparr>held_type = 1, instance_id = 0, held_value = 5\<rparr>)],
             associated_objs_drop_on_fork = {''x''}, fork_watchers = [],
             constructions = [(''x'', 1)], fork_calls = []\<rparr>)
   \<and> notify_pre_fork idle_hook
        \<lparr>associated_objs = [((''x'', 1), \<lparr>held_type = 1, instance_id = 0, held_value = 5::nat\<rparr>)],
         associated_objs_drop_on_fork = {''x''}, fork_watchers = [],
         constructions = [(''x'', 1)], fork_calls = []\<rparr>
     = \<lparr>associated_objs = [], associated_objs_drop_on_fork = {}, fork_watchers = [],
        constructions = [(''x'', 1)], fork_calls = []\<rparr>
   \<and> lookup_or_create_singleton_object 2 ''x'' False (6::nat)
        \<lparr>associated_objs = [], associated_objs_drop_on_fork = {}, fork_watchers = [],
         constructions = [(''x'', 1)], fork_calls = []\<rparr>
     = Inr (\<lparr>held_type = 2, instance_id = 1, held_value = 6\<rparr>,
            \<lparr>associated_objs = [((''x'', 2), \<lparr>held_type = 2, instance_id = 1, held_value = 6\<rparr>)],
             associated_objs_drop_on_fork = {}, fork_watchers = [],
             constructions = [(''x'', 1), (''x'', 2)], fork_calls = []\<rparr>)
   \<and> notify_pre_fork idle_hook
        \<lparr>associated_objs = [((''x'', 2), \<lparr>held_type = 2, instance_id = 1, held_value = 6::nat\<rparr>)],
         associated_objs_drop_on_fork = {}, fork_watchers = [],
         constructions = [(''x'', 1), (''x'', 2)], fork_calls = []\<rparr>
     = \<lparr>associated_objs = [((''x'', 2), \<lparr>held_type = 2, instance_id = 1, held_value = 6\<rparr>)],
        associated_objs_drop_on_fork = {}, fork_watchers = [],
        constructions = [(''x'', 1), (''x'', 2)], fork_calls = []\<rparr>"
  by (simp add: lookup_or_create_singleton_object_def Let_def notify_pre_fork_def
      new_CephContext_def)


text \<open>
  Claim C10, amended. Once a slot has been created under \<open>name\<close> with \<open>drop_on_fork = true\<close>,
  then, whatever lookups follow before the next \<open>notify_pre_fork\<close>, that call leaves no slot
  of that name of any type \<open>U\<close>; in particular the slot that a lookup of \<open>(name, U)\<close> with
  \<open>drop_on_fork = false\<close> creates or finds is removed too.
\<close>

theorem drop_on_fork_keyed_by_name:
  assumes hooks: "hooks_use_lookups handle_pre_fork"
      and ok: "registry_ok cct0"
      and absent: "map_find (associated_objs cct0) (name, T) = None"
      and created: "lookup_or_create_singleton_object T name True args cct0 = Inr (obj, cct1)"
  shows "map_find (associated_objs (notify_pre_fork handle_pre_fork (run_lookups reqs cct1)))
           (name, U) = None
       \<and> (\<exists>objU. map_find (associated_objs (run_lookups [(U, name, False, args')] cct1)) (name, U)
                    = Some objU)
       \<and> map_find (associated_objs
             (notify_pre_fork handle_pre_fork (run_lookups [(U, name, False, args')] cct1)))
           (name, U) = None"
proof -
  from lookup_extends[OF ok created] have ok1: "registry_ok cct1" by (simp add: extends_def)
  from created_in_dropset[OF absent created]
  have dr: "name \<in> associated_objs_drop_on_fork cct1" by simp
  have gen: "map_find (associated_objs (notify_pre_fork handle_pre_fork (run_lookups rs cct1)))
           (name, U) = None" for rs
  proof -
    have e: "extends cct1 (run_lookups rs cct1)" using ok1 by (rule run_lookups_extends)
    then have ok2: "registry_ok (run_lookups rs cct1)" by (simp add: extends_def)
    from e dr have "name \<in> associated_objs_drop_on_fork (run_lookups rs cct1)"
      by (auto simp: extends_def)
    from notify_pre_fork_props(5)[OF hooks ok2 this] show ?thesis .
  qed
  from lookup_total[OF ok1, where T=U and n=name and d=False and a=args']
  obtain objU c' where "lookup_or_create_singleton_object U name False args' cct1 = Inr (objU, c')"
    and "map_find (associated_objs c') (name, U) = Some objU" by blast
  then have "map_find (associated_objs (run_lookups [(U, name, False, args')] cct1)) (name, U)
                    = Some objU" by simp
  with gen[of reqs] gen[of "[(U, name, False, args')]"] show ?thesis by blast
qed


theorem drop_on_fork_keyed_by_name_witness:
  "hooks_use_lookups (\<lambda>w (c::nat CephContext). run_lookups [] c)
   \<and> registry_ok (new_CephContext :: nat CephContext)
   \<and> map_find (associated_objs (new_CephContext :: nat CephContext)) (''x'', 1) = None
   \<and> lookup_or_create_singleton_object 1 ''x'' True (5::nat) new_CephContext
       = Inr (\<lparr>held_type = 1, instance_id = 0, held_value = 5::nat\<rparr>,
              \<lparr>associated_objs = [((''x'', 1), \<lparr>held_type = 1, instance_id = 0, held_value = 5::nat\<rparr>)],
               associated_objs_drop_on_fork = {''x''}, fork_watchers = [],
               constructions = [(''x'', 1)], fork_calls = []\<rparr>)
   \<and> associated_objs (run_lookups [(2, ''x'', False, 6::nat)]
         \<lparr>associated_objs = [((''x'', 1), \<lparr>held_type = 1, instance_id = 0, held_value = 5::nat\<rparr>)],
          associated_objs_drop_on_fork = {''x''}, fork_watchers = [],
          constructions = [(''x'', 1)], fork_calls = []\<rparr>)
       = [((''x'', 1), \<lparr>held_type = 1, instance_id = 0, held_value = 5::nat\<rparr>),
          ((''x'', 2), \<lparr>held_type = 2, instance_id = 1, held_value = 6::nat\<rparr>)]
   \<and> map_find (associated_objs (notify_pre_fork (\<lambda>w c. run_lookups [] c)
         (run_lookups [(2, ''x'', False, 6::nat)]
           \<lparr>associated_objs = [((''x'', 1), \<lparr>held_type = 1, instance_id = 0, held_value = 5::nat\<rparr>)],
            associated_objs_drop_on_fork = {''x''}, fork_watchers = [],
            constructions = [(''x'', 1)], fork_calls = []\<rparr>))) (''x'', 2) = None"
proof -
  let ?h = "\<lambda>(w::nat) (c::nat CephContext). run_lookups [] c"
  let ?obj = "\<lparr>held_type = 1, instance_id = 0, held_value = 5::nat\<rparr>"
  let ?c = "\<lparr>associated_objs = [((''x'', 1), ?obj)],
               associated_objs_drop_on_fork = {''x''}, fork_watchers = [],
               constructions = [(''x'', 1)], fork_calls = []\<rparr>"
  have h1: "hooks_use_lookups ?h" by (rule hooks_use_lookups_const)
  have h2: "registry_ok (new_CephContext :: nat CephContext)" by (rule registry_ok_new)
  have h3: "map_find (associated_objs (new_CephContext :: nat CephContext)) (''x'', 1) = None"
    by (simp add: new_CephContext_def)
  have h4: "lookup_or_create_singleton_object 1 ''x'' True (5::nat) new_CephContext = Inr (?obj, ?c)"
    by (simp add: lookup_or_create_singleton_object_def new_CephContext_def Let_def)
  have h5: "associated_objs (run_lookups [(2, ''x'', False, 6::nat)] ?c)
       = [((''x'', 1), ?obj), ((''x'', 2), \<lparr>held_type = 2, instance_id = 1, held_value = 6::nat\<rparr>)]"
    by (simp add: lookup_or_create_singleton_object_def Let_def)
  from drop_on_fork_keyed_by_name[OF h1 h2 h3 h4, where U=2 and args'=6 and reqs="[]"]
  show ?thesis using h1 h2 h3 h4 h5
    by (simp add: lookup_or_create_singleton_object_def Let_def notify_pre_fork_def
        new_CephContext_def register_fork_watcher_def)
qed

section \<open>Properties of the admin command dispatch\<close>

text \<open>
  Claim C6. The command \<open>assert\<close> ends in a fatal fault whatever the value of the option
  \<open>debug_asok_assert_abort\<close>: with the option set it is the failed \<open>ceph_assert_always\<close>,
  before anything else is done; with the option clear no branch of the dispatch matches
  and the call ends in \<open>ceph_abort_msg\<close>. With the option set the command \<open>abort\<close> ends in
  \<open>ceph_abort\<close> before any other action.
\<close>

theorem do_command_assert_abort:
  "(\<exists>x acts conf'. do_command e ''assert'' cmdmap conf = (Some x, acts, conf') \<and> is_fatal x)
   \<and> (debug_asok_assert_abort e conf \<longrightarrow>
        do_command e ''assert'' cmdmap conf = (Some CephAssertFail, [], conf)
        \<and> do_command e ''abort'' cmdmap conf = (Some CephAbort, [], conf))
   \<and> (\<not> debug_asok_assert_abort e conf \<longrightarrow>
        do_command e ''assert'' cmdmap conf =
          (Some (CephAbortMsg ''registered under wrong command?''),
           [OpenObjectSection ''assert''], conf))"
  by (simp add: do_command_def do_command_section_def replace_spaces_def)

theorem do_command_assert_abort_witness:
  "debug_asok_assert_abort
     \<lparr>debug_asok_assert_abort = (\<lambda>c::bool. c),
      cmd_getval_string = (\<lambda>(m::string \<Rightarrow> string option) k. Inr (m k)),
      cmd_getval_strings = (\<lambda>m k. Inr None), perf_reset = (\<lambda>v. False),
      rm_val = (\<lambda>v c. (0, c)), set_val = (\<lambda>v x c. (0, c)), get_val = (\<lambda>v c. (0, [])),
      apply_changes = (\<lambda>c. ([], c)), get_schema = (\<lambda>k. None), normalize_key_name = (\<lambda>k. k),
      cpp_strerror = (\<lambda>r. []), ceph_options = []\<rparr> True
   \<and> do_command
     \<lparr>debug_asok_assert_abort = (\<lambda>c::bool. c),
      cmd_getval_string = (\<lambda>(m::string \<Rightarrow> string option) k. Inr (m k)),
      cmd_getval_strings = (\<lambda>m k. Inr None), perf_reset = (\<lambda>v. False),
      rm_val = (\<lambda>v c. (0, c)), set_val = (\<lambda>v x c. (0, c)), get_val = (\<lambda>v c. (0, [])),
      apply_changes = (\<lambda>c. ([], c)), get_schema = (\<lambda>k. None), normalize_key_name = (\<lambda>k. k),
      cpp_strerror = (\<lambda>r. []), ceph_options = []\<rparr> ''assert'' Map.empty True
     = (Some CephAssertFail, [], True)
   \<and> do_command
     \<lparr>debug_asok_assert_abort = (\<lambda>c::bool. c),
      cmd_getval_string = (\<lambda>(m::string \<Rightarrow> string option) k. Inr (m k)),
      cmd_getval_strings = (\<lambda>m k. Inr None), perf_reset = (\<lambda>v. False),
      rm_val = (\<lambda>v c. (0, c)), set_val = (\<lambda>v x c. (0, c)), get_val = (\<lambda>v c. (0, [])),
      apply_changes = (\<lambda>c. ([], c)), get_schema = (\<lambda>k. None), normalize_key_name = (\<lambda>k. k),
      cpp_strerror = (\<lambda>r. []), ceph_options = []\<rparr> ''abort'' Map.empty True
     = (Some CephAbort, [], True)
   \<and> \<not> debug_asok_assert_abort
     \<lparr>debug_asok_assert_abort = (\<lambda>c::bool. c),
      cmd_getval_string = (\<lambda>(m::string \<Rightarrow> string option) k. Inr (m k)),
      cmd_getval_strings = (\<lambda>m k. Inr None), perf_reset = (\<lambda>v. False),
      rm_val = (\<lambda>v c. (0, c)), set_val = (\<lambda>v x c. (0, c)), get_val = (\<lambda>v c. (0, [])),
      apply_changes = (\<lambda>c. ([], c)), get_schema = (\<lambda>k. None), normalize_key_name = (\<lambda>k. k),
      cpp_strerror = (\<lambda>r. []), ceph_options = []\<rparr> False
   \<and> do_command
     \<lparr>debug_asok_assert_abort = (\<lambda>c::bool. c),
      cmd_getval_string = (\<lambda>(m::string \<Rightarrow> string option) k. Inr (m k)),
      cmd_getval_strings = (\<lambda>m k. Inr None), perf_reset = (\<lambda>v. False),
      rm_val = (\<lambda>v c. (0, c)), set_val = (\<lambda>v x c. (0, c)), get_val = (\<lambda>v c. (0, [])),
      apply_changes = (\<lambda>c. ([], c)), get_schema = (\<lambda>k. None), normalize_key_name = (\<lambda>k. k),
      cpp_strerror = (\<lambda>r. []), ceph_options = []\<rparr> ''assert'' Map.empty False
     = (Some (CephAbortMsg ''registered under wrong command?''),
        [OpenObjectSection ''assert''], False)"
  using do_command_assert_abort [of
     "\<lparr>debug_asok_assert_abort = (\<lambda>c::bool. c),
      cmd_getval_string = (\<lambda>(m::string \<Rightarrow> string option) k. Inr (m k)),
      cmd_getval_strings = (\<lambda>m k. Inr None), perf_reset = (\<lambda>v. False),
      rm_val = (\<lambda>v c. (0, c)), set_val = (\<lambda>v x c. (0, c)), get_val = (\<lambda>v c. (0, [])),
      apply_changes = (\<lambda>c. ([], c)), get_schema = (\<lambda>k. None), normalize_key_name = (\<lambda>k. k),
      cpp_strerror = (\<lambda>r. []), ceph_options = []\<rparr>" Map.empty True]
    do_command_assert_abort [of
     "\<lparr>debug_asok_assert_abort = (\<lambda>c::bool. c),
      cmd_getval_string = (\<lambda>(m::string \<Rightarrow> string option) k. Inr (m k)),
      cmd_getval_strings = (\<lambda>m k. Inr None), perf_reset = (\<lambda>v. False),
      rm_val = (\<lambda>v c. (0, c)), set_val = (\<lambda>v x c. (0, c)), get_val = (\<lambda>v c. (0, [])),
      apply_changes = (\<lambda>c. ([], c)), get_schema = (\<lambda>k. None), normalize_key_name = (\<lambda>k. k),
      cpp_strerror = (\<lambda>r. []), ceph_options = []\<rparr>" Map.empty False]
  by simp

text \<open>
  Claim C9 does not hold of the code. Whatever the command map holds, \<open>config diff get\<close>
  performs the same actions: it never reads \<open>var\<close> and passes the empty \<open>setting\<close> to
  \<open>diff\<close>.
\<close>

theorem config_diff_get_ignores_cmdmap:
  "do_command e ''config diff get'' cmdmap conf =
     (None, [OpenObjectSection ''config_diff_get'', OpenObjectSection ''diff'',
             ConfDiffSetting [], CloseSection, CloseSection, FormatterFlush], conf)"
  by (simp add: do_command_def do_command_section_def replace_spaces_def)

section \<open>Properties of the pid file handle\<close>

lemma map_of_al_update [simp]:
  "map_of (al_update k v al) k' = (if k' = k then Some v else map_of al k')"
  by (induction al) (auto simp: al_update_def)

lemma map_of_al_delete [simp]:
  "map_of (al_delete k al) k' = (if k' = k then None else map_of al k')"
  by (induction al) (auto simp: al_delete_def)

lemma sys_open_props:
  assumes "sys_open p os = Inr (fd, os1)"
  shows "\<exists>fid. map_of (os_names os1) p = Some fid \<and> map_of (os_fds os1) fd = Some (fid, 0)"
    and "fd \<noteq> - 1"
  using assms
  by (auto simp: sys_open_def Let_def split: if_splits option.splits)

lemma pidfh_write_names:
  "pidfh_write h os = (r, os') \<Longrightarrow> os_names os' = os_names os"
  by (auto simp: pidfh_write_def sys_ftruncate_def safe_write_def Let_def
      split: if_splits option.splits sum.splits)

lemma pidfh_open_ok:
  assumes "pidfh_open p h0 os = (0, h, os1)"
  shows "pf_fd h \<noteq> - 1" and "pf_path h = p"
    and "map_of (os_names os1) p = Some (pf_dev h, pf_ino h)"
proof -
  from assms have len: "length p \<le> PATH_MAX"
    by (auto simp: pidfh_open_def Let_def ENAMETOOLONG_def split: if_splits)
  then have tk: "take PATH_MAX p = p" by simp
  from assms len obtain fd where o: "sys_open p os = Inr (fd, os1)"
    and st: "sys_fstat fd os1 = Inr (pf_dev h, pf_ino h)"
    and hh: "pf_fd h = fd" "pf_path h = p"
    by (auto simp: pidfh_open_def Let_def tk ENAMETOOLONG_def ENOENT_def EBADF_def EAGAIN_def
        sys_open_def sys_fstat_def sys_fcntl_setlk_def
        split: if_splits sum.splits option.splits prod.splits)
  from sys_open_props[OF o] obtain fid where
    n: "map_of (os_names os1) p = Some fid" and f: "map_of (os_fds os1) fd = Some (fid, 0)"
    and ne: "fd \<noteq> - 1" by blast
  from st f have "fid = (pf_dev h, pf_ino h)" by (simp add: sys_fstat_def)
  with n hh ne show "pf_fd h \<noteq> - 1" and "pf_path h = p"
    and "map_of (os_names os1) p = Some (pf_dev h, pf_ino h)" by simp_all
qed

text \<open>
  Claim C8, as stated, fails. A handle is acquired on \<open>/run/ceph.pid\<close> with descriptor 3;
  the descriptor is then closed behind the handle's back; \<open>verify\<close> still answers 0, not
  \<open>-ESTALE\<close>. For a handle whose descriptor field is \<open>-1\<close> the answer is \<open>-EINVAL\<close>, not
  \<open>-ESTALE\<close> either.
\<close>

theorem pidfh_verify_closed_fd_counterexample:
  "pidfh_open ''/run/ceph.pid'' pidfh_reset
     \<lparr>os_pid = 1234, os_names = [], os_files = [], os_fds = [],
      os_foreign_locks = [], os_stat_errors = [],
         os_next_fd = 3, os_next_ino = 7\<rparr>
     = (0, \<lparr>pf_fd = 3, pf_path = ''/run/ceph.pid'', pf_dev = 0, pf_ino = 7\<rparr>,
        \<lparr>os_pid = 1234, os_names = [(''/run/ceph.pid'', 0, 7)],
         os_files = [((0, 7), [])], os_fds = [(3, (0, 7), 0)],
         os_foreign_locks = [], os_stat_errors = [],
         os_next_fd = 4, os_next_ino = 8\<rparr>)
   \<and> sys_close 3
        \<lparr>os_pid = 1234, os_names = [(''/run/ceph.pid'', 0, 7)],
         os_files = [((0, 7), [])], os_fds = [(3, (0, 7), 0)],
         os_foreign_locks = [], os_stat_errors = [],
         os_next_fd = 4, os_next_ino = 8\<rparr>
     = \<lparr>os_pid = 1234, os_names = [(''/run/ceph.pid'', 0, 7)],
        os_files = [((0, 7), [])], os_fds = [],
        os_foreign_locks = [], os_stat_errors = [],
         os_next_fd = 4, os_next_ino = 8\<rparr>
   \<and> pidfh_verify \<lparr>pf_fd = 3, pf_path = ''/run/ceph.pid'', pf_dev = 0, pf_ino = 7\<rparr>
        \<lparr>os_pid = 1234, os_names = [(''/run/ceph.pid'', 0, 7)],
         os_files = [((0, 7), [])], os_fds = [],
         os_foreign_locks = [], os_stat_errors = [],
         os_next_fd = 4, os_next_ino = 8\<rparr> = 0
   \<and> pidfh_verify \<lparr>pf_fd = 3, pf_path = ''/run/ceph.pid'', pf_dev = 0, pf_ino = 7\<rparr>
        \<lparr>os_pid = 1234, os_names = [(''/run/ceph.pid'', 0, 7)],
         os_files = [((0, 7), [])], os_fds = [],
         os_foreign_locks = [], os_stat_errors = [],
         os_next_fd = 4, os_next_ino = 8\<rparr> \<noteq> - ESTALE
   \<and> pidfh_verify \<lparr>pf_fd = - 1, pf_path = ''/run/ceph.pid'', pf_dev = 0, pf_ino = 7\<rparr>
        \<lparr>os_pid = 1234, os_names = [(''/run/ceph.pid'', 0, 7)],
         os_files = [((0, 7), [])], os_fds = [],
         os_foreign_locks = [], os_stat_errors = [],
         os_next_fd = 4, os_next_ino = 8\<rparr> = - EINVAL
   \<and> - EINVAL \<noteq> - ESTALE"
  by (simp add: pidfh_open_def pidfh_reset_def pidfh_verify_def sys_open_def sys_fstat_def
      sys_fcntl_setlk_def sys_close_def sys_stat_def al_update_def al_delete_def
      PATH_MAX_def ESTALE_def EINVAL_def Let_def)

text \<open>
  Claim C8, amended. For a handle without a descriptor (\<open>pf_fd = -1\<close>) \<open>verify\<close> answers
  \<open>-EINVAL\<close>. Otherwise it calls \<open>stat\<close> on the path: if \<open>stat\<close> fails, \<open>verify\<close> answers the
  negated error of \<open>stat\<close>, whatever it is; if \<open>stat\<close> succeeds, it answers \<open>-ESTALE\<close> when
  the device or the inode differs from the captured identity and 0 when both agree. So
  the answer is \<open>-ESTALE\<close> exactly when the identity differs or \<open>stat\<close> itself fails with
  \<open>ESTALE\<close>. \<open>verify\<close> never consults the descriptor table, so its answer is the same after
  the descriptor has been closed. After a successful \<open>open\<close> followed by \<open>write\<close>, when
  \<open>stat\<close> has no error of its own on the path, \<open>verify\<close> answers 0, and it answers
  \<open>-ESTALE\<close> once the path names a file of any other identity.
\<close>

theorem pidfh_verify_stale:
  "(pf_fd h = - 1 \<longrightarrow> pidfh_verify h os = - EINVAL)
   \<and> (pf_fd h \<noteq> - 1 \<longrightarrow>
        (\<forall>err. sys_stat (pf_path h) os = Inl err \<longrightarrow> pidfh_verify h os = - err)
      \<and> (\<forall>fid. sys_stat (pf_path h) os = Inr fid \<longrightarrow>
            pidfh_verify h os = (if fid \<noteq> (pf_dev h, pf_ino h) then - ESTALE else 0))
      \<and> (pidfh_verify h os = - ESTALE \<longleftrightarrow>
            sys_stat (pf_path h) os = Inl ESTALE
            \<or> (\<exists>fid. sys_stat (pf_path h) os = Inr fid \<and> fid \<noteq> (pf_dev h, pf_ino h))))
   \<and> pidfh_verify h (os\<lparr>os_fds := fds\<rparr>) = pidfh_verify h os
   \<and> (pidfh_open p h0 os = (0, h', os1) \<and> pidfh_write h' os1 = (r, os2)
        \<and> map_of (os_stat_errors os2) p = None \<longrightarrow>
        pidfh_verify h' os2 = 0
        \<and> (\<forall>fid. fid \<noteq> (pf_dev h', pf_ino h') \<longrightarrow>
              pidfh_verify h' (os2\<lparr>os_names := al_update p fid (os_names os2)\<rparr>) = - ESTALE))"
proof (intro conjI impI allI)
  assume "pf_fd h = - 1"
  then show "pidfh_verify h os = - EINVAL" by (simp add: pidfh_verify_def)
next
  fix err
  assume "pf_fd h \<noteq> - 1" and "sys_stat (pf_path h) os = Inl err"
  then show "pidfh_verify h os = - err" by (simp add: pidfh_verify_def)
next
  fix fid
  assume "pf_fd h \<noteq> - 1" and "sys_stat (pf_path h) os = Inr fid"
  then show "pidfh_verify h os = (if fid \<noteq> (pf_dev h, pf_ino h) then - ESTALE else 0)"
    by (cases fid) (auto simp: pidfh_verify_def)
next
  assume fd: "pf_fd h \<noteq> - 1"
  show "pidfh_verify h os = - ESTALE \<longleftrightarrow>
            sys_stat (pf_path h) os = Inl ESTALE
            \<or> (\<exists>fid. sys_stat (pf_path h) os = Inr fid \<and> fid \<noteq> (pf_dev h, pf_ino h))"
  proof (cases "sys_stat (pf_path h) os")
    case (Inl err)
    with fd show ?thesis by (simp add: pidfh_verify_def)
  next
    case (Inr fid)
    with fd show ?thesis by (cases fid) (auto simp: pidfh_verify_def ESTALE_def)
  qed
next
  have "sys_stat (pf_path h) (os\<lparr>os_fds := fds\<rparr>) = sys_stat (pf_path h) os"
    by (simp add: sys_stat_def split: option.splits)
  then show "pidfh_verify h (os\<lparr>os_fds := fds\<rparr>) = pidfh_verify h os"
    by (simp add: pidfh_verify_def)
next
  assume a: "pidfh_open p h0 os = (0, h', os1) \<and> pidfh_write h' os1 = (r, os2)
        \<and> map_of (os_stat_errors os2) p = None"
  then have o: "pidfh_open p h0 os = (0, h', os1)" and w: "pidfh_write h' os1 = (r, os2)"
    and ne: "map_of (os_stat_errors os2) p = None"
    by simp_all
  note ok = pidfh_open_ok[OF o]
  from pidfh_write_names[OF w] ok(3)
  have n2: "map_of (os_names os2) p = Some (pf_dev h', pf_ino h')" by simp
  with ok(1,2) ne show "pidfh_verify h' os2 = 0"
    by (simp add: pidfh_verify_def sys_stat_def)
  fix fid
  assume "fid \<noteq> (pf_dev h', pf_ino h')"
  then show "pidfh_verify h' (os2\<lparr>os_names := al_update p fid (os_names os2)\<rparr>) = - ESTALE"
    using ok(1,2) ne by (cases fid) (auto simp: pidfh_verify_def sys_stat_def)
qed

theorem pidfh_verify_stale_witness:
  "pidfh_open ''/run/ceph.pid'' pidfh_reset
     \<lparr>os_pid = 1234, os_names = [], os_files = [], os_fds = [],
      os_foreign_locks = [], os_stat_errors = [], os_next_fd = 3, os_next_ino = 7\<rparr>
     = (0, \<lparr>pf_fd = 3, pf_path = ''/run/ceph.pid'', pf_dev = 0, pf_ino = 7\<rparr>,
        \<lparr>os_pid = 1234, os_names = [(''/run/ceph.pid'', 0, 7)],
         os_files = [((0, 7), [])], os_fds = [(3, (0, 7), 0)],
         os_foreign_locks = [], os_stat_errors = [], os_next_fd = 4, os_next_ino = 8\<rparr>)
   \<and> pidfh_write \<lparr>pf_fd = 3, pf_path = ''/run/ceph.pid'', pf_dev = 0, pf_ino = 7\<rparr>
        \<lparr>os_pid = 1234, os_names = [(''/run/ceph.pid'', 0, 7)],
         os_files = [((0, 7), [])], os_fds = [(3, (0, 7), 0)],
         os_foreign_locks = [], os_stat_errors = [], os_next_fd = 4, os_next_ino = 8\<rparr>
     = (0, \<lparr>os_pid = 1234, os_names = [(''/run/ceph.pid'', 0, 7)],
            os_files = [((0, 7), ''1234'' @ [CHR 0x0A])], os_fds = [(3, (0, 7), 5)],
            os_foreign_locks = [], os_stat_errors = [], os_next_fd = 4, os_next_ino = 8\<rparr>)
   \<and> (3::int) \<noteq> - 1 \<and> ((0::nat), (9::nat)) \<noteq> (0, 7)
   \<and> pidfh_verify \<lparr>pf_fd = 3, pf_path = ''/run/ceph.pid'', pf_dev = 0, pf_ino = 7\<rparr>
        \<lparr>os_pid = 1234, os_names = [(''/run/ceph.pid'', 0, 7)],
         os_files = [((0, 7), ''1234'' @ [CHR 0x0A])], os_fds = [(3, (0, 7), 5)],
         os_foreign_locks = [], os_stat_errors = [], os_next_fd = 4, os_next_ino = 8\<rparr> = 0
   \<and> pidfh_verify \<lparr>pf_fd = 3, pf_path = ''/run/ceph.pid'', pf_dev = 0, pf_ino = 7\<rparr>
        \<lparr>os_pid = 1234, os_names = [(''/run/ceph.pid'', 0, 9)],
         os_files = [((0, 7), ''1234'' @ [CHR 0x0A])], os_fds = [(3, (0, 7), 5)],
         os_foreign_locks = [], os_stat_errors = [], os_next_fd = 4, os_next_ino = 8\<rparr> = - ESTALE
   \<and> sys_stat ''/run/ceph.pid''
        \<lparr>os_pid = 1234, os_names = [], os_files = [], os_fds = [(3, (0, 7), 5)],
         os_foreign_locks = [], os_stat_errors = [], os_next_fd = 4, os_next_ino = 8\<rparr> = Inl ENOENT
   \<and> pidfh_verify \<lparr>pf_fd = 3, pf_path = ''/run/ceph.pid'', pf_dev = 0, pf_ino = 7\<rparr>
        \<lparr>os_pid = 1234, os_names = [], os_files = [], os_fds = [(3, (0, 7), 5)],
         os_foreign_locks = [], os_stat_errors = [], os_next_fd = 4, os_next_ino = 8\<rparr> = - ENOENT
   \<and> sys_stat ''/run/ceph.pid''
        \<lparr>os_pid = 1234, os_names = [(''/run/ceph.pid'', 0, 7)],
         os_files = [((0, 7), ''1234'' @ [CHR 0x0A])], os_fds = [(3, (0, 7), 5)],
         os_foreign_locks = [], os_stat_errors = [(''/run/ceph.pid'', 13)],
         os_next_fd = 4, os_next_ino = 8\<rparr> = Inl 13
   \<and> pidfh_verify \<lparr>pf_fd = 3, pf_path = ''/run/ceph.pid'', pf_dev = 0, pf_ino = 7\<rparr>
        \<lparr>os_pid = 1234, os_names = [(''/run/ceph.pid'', 0, 7)],
         os_files = [((0, 7), ''1234'' @ [CHR 0x0A])], os_fds = [(3, (0, 7), 5)],
         os_foreign_locks = [], os_stat_errors = [(''/run/ceph.pid'', 13)],
         os_next_fd = 4, os_next_ino = 8\<rparr> = - 13
   \<and> pidfh_verify \<lparr>pf_fd = - 1, pf_path = ''/run/ceph.pid'', pf_dev = 0, pf_ino = 7\<rparr>
        \<lparr>os_pid = 1234, os_names = [(''/run/ceph.pid'', 0, 9)],
         os_files = [], os_fds = [],
         os_foreign_locks = [], os_stat_errors = [], os_next_fd = 4, os_next_ino = 8\<rparr> = - EINVAL"
proof -
  let ?ini = "\<lparr>os_pid = 1234, os_names = [], os_files = [], os_fds = [],
      os_foreign_locks = [], os_stat_errors = [], os_next_fd = 3, os_next_ino = 7\<rparr>"
  let ?h = "\<lparr>pf_fd = 3, pf_path = ''/run/ceph.pid'', pf_dev = 0, pf_ino = 7\<rparr>"
  let ?nofd = "\<lparr>pf_fd = - 1, pf_path = ''/run/ceph.pid'', pf_dev = 0, pf_ino = 7\<rparr>"
  let ?opened = "\<lparr>os_pid = 1234, os_names = [(''/run/ceph.pid'', 0, 7)],
         os_files = [((0, 7), [])], os_fds = [(3, (0, 7), 0)],
         os_foreign_locks = [], os_stat_errors = [], os_next_fd = 4, os_next_ino = 8\<rparr>"
  let ?written = "\<lparr>os_pid = 1234, os_names = [(''/run/ceph.pid'', 0, 7)],
            os_files = [((0, 7), ''1234'' @ [CHR 0x0A])], os_fds = [(3, (0, 7), 5)],
            os_foreign_locks = [], os_stat_errors = [], os_next_fd = 4, os_next_ino = 8\<rparr>"
  let ?gone = "\<lparr>os_pid = 1234, os_names = [], os_files = [], os_fds = [(3, (0, 7), 5)],
         os_foreign_locks = [], os_stat_errors = [], os_next_fd = 4, os_next_ino = 8\<rparr>"
  let ?denied = "\<lparr>os_pid = 1234, os_names = [(''/run/ceph.pid'', 0, 7)],
         os_files = [((0, 7), ''1234'' @ [CHR 0x0A])], os_fds = [(3, (0, 7), 5)],
         os_foreign_locks = [], os_stat_errors = [(''/run/ceph.pid'', 13)],
         os_next_fd = 4, os_next_ino = 8\<rparr>"
  let ?other = "\<lparr>os_pid = 1234, os_names = [(''/run/ceph.pid'', 0, 9)],
         os_files = [], os_fds = [],
         os_foreign_locks = [], os_stat_errors = [], os_next_fd = 4, os_next_ino = 8\<rparr>"
  have o: "pidfh_open ''/run/ceph.pid'' pidfh_reset ?ini = (0, ?h, ?opened)"
    by (simp add: pidfh_open_def pidfh_reset_def sys_open_def sys_fstat_def
        sys_fcntl_setlk_def al_update_def PATH_MAX_def Let_def)
  have w: "pidfh_write ?h ?opened = (0, ?written)"
    by (simp add: pidfh_write_def pidfh_is_open_def sys_ftruncate_def safe_write_def
        file_content_def al_update_def dec_int_def Let_def)
  have e: "map_of (os_stat_errors ?written) ''/run/ceph.pid'' = None" by simp
  have s1: "sys_stat ''/run/ceph.pid'' ?gone = Inl ENOENT" by (simp add: sys_stat_def)
  have s2: "sys_stat ''/run/ceph.pid'' ?denied = Inl 13" by (simp add: sys_stat_def)
  note t = pidfh_verify_stale [where p="''/run/ceph.pid''" and ?h0.0=pidfh_reset
      and h'="?h" and ?os1.0="?opened" and r=0 and ?os2.0="?written"]
  from t [where h="?nofd" and os="?ini"] o w e have v: "pidfh_verify ?h ?written = 0"
    and st: "pidfh_verify ?h
               (?written\<lparr>os_names := al_update ''/run/ceph.pid'' (0, 9) (os_names ?written)\<rparr>)
               = - ESTALE"
    by simp_all
  from st have st': "pidfh_verify ?h
        \<lparr>os_pid = 1234, os_names = [(''/run/ceph.pid'', 0, 9)],
         os_files = [((0, 7), ''1234'' @ [CHR 0x0A])], os_fds = [(3, (0, 7), 5)],
         os_foreign_locks = [], os_stat_errors = [], os_next_fd = 4, os_next_ino = 8\<rparr> = - ESTALE"
    by (simp add: al_update_def)
  from pidfh_verify_stale [where h="?h" and os="?gone"] s1
  have g: "pidfh_verify ?h ?gone = - ENOENT" by simp
  from pidfh_verify_stale [where h="?h" and os="?denied"] s2
  have d: "pidfh_verify ?h ?denied = - 13" by simp
  from pidfh_verify_stale [where h="?nofd" and os="?other"]
  have n: "pidfh_verify ?nofd ?other = - EINVAL" by simp
  show ?thesis using o w v st' s1 g s2 d n by simp
qed

text \<open>
  Claim C3 does not hold of the code. The handle is locked on \<open>/run/ceph.pid\<close>, the file
  holds \<open>999\<close> and the process id is 1234. \<open>remove\<close> answers \<open>-EDOM\<close>, leaves the path and
  closes descriptor 3, but returns before \<open>reset()\<close>: the handle keeps its path and its
  descriptor number and \<open>is_open()\<close> still holds of it.
\<close>

theorem pidfh_remove_mismatch_not_reset:
  "pidfh_remove \<lparr>pf_fd = 3, pf_path = ''/run/ceph.pid'', pf_dev = 0, pf_ino = 7\<rparr>
     \<lparr>os_pid = 1234, os_names = [(''/run/ceph.pid'', 0, 7)],
      os_files = [((0, 7), ''999'' @ [CHR 0x0A])], os_fds = [(3, (0, 7), 4)],
      os_foreign_locks = [], os_stat_errors = [],
         os_next_fd = 4, os_next_ino = 8\<rparr>
     = (- EDOM, \<lparr>pf_fd = 3, pf_path = ''/run/ceph.pid'', pf_dev = 0, pf_ino = 7\<rparr>,
        \<lparr>os_pid = 1234, os_names = [(''/run/ceph.pid'', 0, 7)],
         os_files = [((0, 7), ''999'' @ [CHR 0x0A])], os_fds = [],
         os_foreign_locks = [], os_stat_errors = [],
         os_next_fd = 4, os_next_ino = 8\<rparr>)
   \<and> pidfh_is_open \<lparr>pf_fd = 3, pf_path = ''/run/ceph.pid'', pf_dev = 0, pf_ino = 7\<rparr>
   \<and> \<lparr>pf_fd = 3, pf_path = ''/run/ceph.pid'', pf_dev = 0, pf_ino = 7\<rparr> \<noteq> pidfh_reset"
  by (simp add: pidfh_remove_def pidfh_verify_def pidfh_is_open_def pidfh_reset_def
      sys_stat_def sys_lseek_set_def safe_read_def sys_close_def file_content_def
      al_update_def al_delete_def atoi_def strtol_def isspace_def isdigit_def Let_def)

end
